theory Spec2Isabelle
  imports Main
begin

section \<open>JavaScript values\<close>

text \<open>
  The catalog's answer is parsed JSON, and the service reads it untyped (\<open>data\<close> and
  \<open>item\<close> have type \<open>any\<close>). A value is therefore one of the JSON shapes, plus
  \<open>undefined\<close> (what reading a missing property gives) and a \<open>Date\<close> (what
  \<open>new Date()\<close> gives, as milliseconds since the epoch). Numbers are the integers:
  catalog identifiers and \<open>Date.now()\<close> are integers, and \<open>NaN\<close> cannot come out
  of JSON. Strings are byte strings.
\<close>

datatype jsval =
    JUndefined
  | JNull
  | JBool bool
  | JNum int
  | JStr string
  | JDate int
  | JArr "jsval list"
  | JObj "(string \<times> jsval) list"

text \<open>What \<open>||\<close> and \<open>!\<close> test: \<open>undefined\<close>, \<open>null\<close>, \<open>false\<close>, \<open>0\<close> and
  the empty string are falsy, every other value is truthy.\<close>

fun truthy :: "jsval \<Rightarrow> bool" where
  "truthy JUndefined = False"
| "truthy JNull = False"
| "truthy (JBool b) = b"
| "truthy (JNum n) = (n \<noteq> 0)"
| "truthy (JStr s) = (s \<noteq> [])"
| "truthy (JDate t) = True"
| "truthy (JArr xs) = True"
| "truthy (JObj kvs) = True"

definition js_or :: "jsval \<Rightarrow> jsval \<Rightarrow> jsval" where
  "js_or a b = (if truthy a then a else b)"

datatype store_error = StoreUnavailable | StoreWriteError

text \<open>The exceptions that can be thrown inside \<open>searchAndSave\<close>: a \<open>TypeError\<close>
  (property read on \<open>null\<close>/\<open>undefined\<close>, iteration over a non-iterable), a rejected
  \<open>fetch\<close>, the \<open>Error\<close> of line 23 carrying the response status, a body that is
  not JSON, and a rejected store call.\<close>

datatype js_error =
    TypeError
  | FetchRejected
  | RequestFailed nat
  | JsonSyntaxError
  | StoreError store_error

text \<open>\<open>obj.key\<close> for the keys this program reads (own data properties; none of them
  is a built-in property of strings, numbers or arrays): it throws on \<open>null\<close> and
  \<open>undefined\<close>, looks the key up in an object, and is \<open>undefined\<close> elsewhere.\<close>

fun get_prop :: "jsval \<Rightarrow> string \<Rightarrow> js_error + jsval" where
  "get_prop JUndefined k = Inl TypeError"
| "get_prop JNull k = Inl TypeError"
| "get_prop (JObj kvs) k = Inr (case map_of kvs k of None \<Rightarrow> JUndefined | Some v \<Rightarrow> v)"
| "get_prop v k = Inr JUndefined"

text \<open>A property read that is known not to throw (a read after the first one on the
  same object).\<close>

definition read_prop :: "jsval \<Rightarrow> string \<Rightarrow> jsval" where
  "read_prop v k = (case get_prop v k of Inl e \<Rightarrow> JUndefined | Inr x \<Rightarrow> x)"

text \<open>What \<open>for (const item of v)\<close> iterates over: the elements of an array, the
  characters of a string; any other JSON value is not iterable and throws.\<close>

fun iterate :: "jsval \<Rightarrow> js_error + jsval list" where
  "iterate (JArr xs) = Inr xs"
| "iterate (JStr s) = Inr (map (\<lambda>c. JStr [c]) s)"
| "iterate v = Inl TypeError"

section \<open>The record and the world\<close>

text \<open>The object built at lines 33--41, and what the function returns
  (\<open>ISearchResult\<close>). The fields \<open>id\<close> and \<open>image\<close> carry a suffix.\<close>

record search_record =
  id_field :: jsval
  kind :: jsval
  artistName :: jsval
  collectionName :: jsval
  collectionViewUrl :: jsval
  image_field :: jsval
  searchDate :: jsval

text \<open>The answer of \<open>fetch\<close>: the status, and the parsed body (\<open>None\<close> when
  \<open>response.json()\<close> rejects). \<open>response.ok\<close> is a status in 200..299.\<close>

record response =
  status :: nat
  json :: "jsval option"

definition ok :: "response \<Rightarrow> bool" where
  "ok r \<longleftrightarrow> 200 \<le> status r \<and> status r \<le> 299"

text \<open>What the outside supplies: the catalog (a URL to an answer, \<open>None\<close> when the
  request itself fails) and the system clock, as the value of its successive reads.\<close>

record env =
  fetch :: "string \<Rightarrow> response option"
  clock :: "nat \<Rightarrow> int"

text \<open>What persists across calls: the number of clock reads made so far, the document
  store, and what was written with \<open>console.error\<close>.\<close>

record 'st world =
  reads :: nat
  store :: 'st
  console :: "(string \<times> js_error) list"

text \<open>The store's \<open>findOneAndUpdate(..., {upsert: true, new: true})\<close>, as a parameter:
  from the store and the record to the stored document or an error, and the new store.\<close>

type_synonym 'st upsert = "'st \<Rightarrow> search_record \<Rightarrow> (store_error + search_record) \<times> 'st"

definition Date_now :: "env \<Rightarrow> 'st world \<Rightarrow> int \<times> 'st world" where
  "Date_now e w = (clock e (reads w), w\<lparr>reads := Suc (reads w)\<rparr>)"

definition console_error :: "string \<Rightarrow> js_error \<Rightarrow> 'st world \<Rightarrow> 'st world" where
  "console_error msg err w = w\<lparr>console := console w @ [(msg, err)]\<rparr>"

section \<open>The request URL\<close>

definition unreserved :: "char \<Rightarrow> bool" where
  "unreserved c \<longleftrightarrow>
     c \<in> set ''ABCDEFGHIJKLMNOPQRSTUVWXYZabcdefghijklmnopqrstuvwxyz0123456789-_.!~*()''
     \<or> c = char_of (39::nat)"

definition hex_digit :: "nat \<Rightarrow> char" where
  "hex_digit n = ''0123456789ABCDEF'' ! (n mod 16)"

definition percent_encode :: "char \<Rightarrow> string" where
  "percent_encode c =
     (if unreserved c then [c]
      else [CHR ''%'', hex_digit (of_char c div 16), hex_digit (of_char c)])"

definition encodeURIComponent :: "string \<Rightarrow> string" where
  "encodeURIComponent s = concat (map percent_encode s)"

definition search_url :: "string \<Rightarrow> string" where
  "search_url searchWord =
     ''https://itunes.apple.com/search?term='' @ encodeURIComponent searchWord
       @ ''&limit=30&country=sa''"

section \<open>searchAndSave\<close>

text \<open>Lines 18--26 and the head of the loop at line 30: the items the loop will run
  over, or the exception thrown before the first iteration.\<close>

definition fetch_results :: "env \<Rightarrow> string \<Rightarrow> js_error + jsval list" where
  "fetch_results e searchWord =
     (case fetch e (search_url searchWord) of
        None \<Rightarrow> Inl FetchRejected
      | Some resp \<Rightarrow>
          if \<not> ok resp then Inl (RequestFailed (status resp))
          else (case json resp of
                  None \<Rightarrow> Inl JsonSyntaxError
                | Some data \<Rightarrow>
                    (case get_prop data ''results'' of
                       Inl err \<Rightarrow> Inl err
                     | Inr results \<Rightarrow> iterate results)))"

text \<open>Lines 33--41. The first property read throws when the item is \<open>null\<close>; the
  clock is read for the id only when both identifiers are falsy, and once more for
  \<open>searchDate\<close>.\<close>

definition build_searchResult ::
  "env \<Rightarrow> jsval \<Rightarrow> 'st world \<Rightarrow> (js_error + search_record) \<times> 'st world" where
  "build_searchResult e item w =
     (case get_prop item ''trackId'' of
        Inl err \<Rightarrow> (Inl err, w)
      | Inr trackId \<Rightarrow>
          (let (idv, w1) =
                 (if truthy trackId then (trackId, w)
                  else if truthy (read_prop item ''collectionId'')
                  then (read_prop item ''collectionId'', w)
                  else (let (t, w') = Date_now e w in (JNum t, w')));
               (d, w2) = Date_now e w1
           in (Inr \<lparr> id_field = idv,
                      kind = read_prop item ''kind'',
                      artistName = read_prop item ''artistName'',
                      collectionName =
                        js_or (read_prop item ''collectionName'')
                          (js_or (read_prop item ''trackName'') (JStr [])),
                      collectionViewUrl =
                        js_or (read_prop item ''collectionViewUrl'')
                          (js_or (read_prop item ''trackViewUrl'') (JStr [])),
                      image_field =
                        js_or (read_prop item ''artworkUrl600'') (read_prop item ''artworkUrl100''),
                      searchDate = JDate d \<rparr>, w2)))"

text \<open>The body of the inner \<open>try\<close> (lines 33--50): build the record, upsert it.\<close>

definition save_item ::
  "'st upsert \<Rightarrow> env \<Rightarrow> jsval \<Rightarrow> 'st world \<Rightarrow> (js_error + search_record) \<times> 'st world" where
  "save_item U e item w =
     (case build_searchResult e item w of
        (Inl err, w1) \<Rightarrow> (Inl err, w1)
      | (Inr searchResult, w1) \<Rightarrow>
          (case U (store w1) searchResult of
             (Inl err, st) \<Rightarrow> (Inl (StoreError err), w1\<lparr>store := st\<rparr>)
           | (Inr saved, st) \<Rightarrow> (Inr saved, w1\<lparr>store := st\<rparr>)))"

text \<open>The loop of lines 30--54 with its inner \<open>catch\<close>: a saved document is pushed on
  \<open>savedResults\<close>, a failure is logged and the loop goes on.\<close>

fun save_loop ::
  "'st upsert \<Rightarrow> env \<Rightarrow> jsval list \<Rightarrow> search_record list \<Rightarrow> 'st world
     \<Rightarrow> search_record list \<times> 'st world" where
  "save_loop U e [] savedResults w = (savedResults, w)"
| "save_loop U e (item # items) savedResults w =
     (case save_item U e item w of
        (Inr saved, w1) \<Rightarrow> save_loop U e items (savedResults @ [saved]) w1
      | (Inl err, w1) \<Rightarrow>
          save_loop U e items savedResults
            (console_error ''Error saving individual result:'' err w1))"

text \<open>The outer \<open>try\<close> block (lines 17--57): \<open>Inl\<close> is an exception leaving it.\<close>

definition searchAndSave_try ::
  "'st upsert \<Rightarrow> env \<Rightarrow> string \<Rightarrow> 'st world \<Rightarrow> (js_error + search_record list) \<times> 'st world" where
  "searchAndSave_try U e searchWord w =
     (case fetch_results e searchWord of
        Inl err \<Rightarrow> (Inl err, w)
      | Inr items \<Rightarrow>
          (case save_loop U e items [] w of
             (savedResults, w1) \<Rightarrow> (Inr savedResults, w1)))"

text \<open>The whole function, with the outer \<open>catch\<close> (lines 59--62).\<close>

definition searchAndSave ::
  "'st upsert \<Rightarrow> env \<Rightarrow> string \<Rightarrow> 'st world \<Rightarrow> (js_error + search_record list) \<times> 'st world" where
  "searchAndSave U e searchWord w =
     (case searchAndSave_try U e searchWord w of
        (Inl err, w1) \<Rightarrow> (Inr [], console_error ''Error in searchAndSave:'' err w1)
      | (Inr savedResults, w1) \<Rightarrow> (Inr savedResults, w1))"


text \<open>The calls of the store that the loop makes, in the order it makes them: the item
  the call is made for, and what the store answered. There is one call for each item
  whose record could be built, none for an item on which the building throws.\<close>

fun upsert_trace ::
  "'st upsert \<Rightarrow> env \<Rightarrow> jsval list \<Rightarrow> 'st world
     \<Rightarrow> (jsval \<times> (store_error + search_record)) list" where
  "upsert_trace U e [] w = []"
| "upsert_trace U e (item # items) w =
     (case build_searchResult e item w of
        (Inl err, w1) \<Rightarrow>
          upsert_trace U e items (console_error ''Error saving individual result:'' err w1)
      | (Inr searchResult, w1) \<Rightarrow>
          (case U (store w1) searchResult of
             (Inl err, st) \<Rightarrow>
               (item, Inl err) # upsert_trace U e items
                 (console_error ''Error saving individual result:'' (StoreError err)
                    (w1\<lparr>store := st\<rparr>))
           | (Inr saved, st) \<Rightarrow>
               (item, Inr saved) # upsert_trace U e items (w1\<lparr>store := st\<rparr>)))"

text \<open>A sequence of calls, each against its own catalog and clock, on one world.\<close>

fun run_calls :: "'st upsert \<Rightarrow> (env \<times> string) list \<Rightarrow> 'st world \<Rightarrow> 'st world" where
  "run_calls U [] w = w"
| "run_calls U ((e, searchWord) # calls) w =
     run_calls U calls (snd (searchAndSave U e searchWord w))"

section \<open>The endpoint\<close>

text \<open>The body of an answer: what is handed to \<open>res.json\<close> (an object literal, or the
  list of documents the service returned), or the framework's own error page, sent when
  the handler is not reached.\<close>

datatype payload = Json jsval | Records "search_record list" | ErrorPage

record reply =
  res_status :: nat
  res_body :: payload

type_synonym 'st service =
  "string \<Rightarrow> 'st world \<Rightarrow> (js_error + search_record list) \<times> 'st world"

text \<open>The callback registered for the route (index.ts, lines 18--39), over the service
  it awaits. \<open>req.params.searchWord\<close> is a string or \<open>undefined\<close>; \<open>!searchWord\<close>
  holds for \<open>undefined\<close> and for the empty string. \<open>res.json\<close> without
  \<open>res.status\<close> answers 200. Which requests reach the callback is decided by the
  route, \<open>app_get\<close> below.\<close>

definition search_handler ::
  "'st service \<Rightarrow> string option \<Rightarrow> 'st world \<Rightarrow> reply \<times> 'st world" where
  "search_handler svc searchWord w =
     (case searchWord of
        None \<Rightarrow>
          (\<lparr>res_status = 400,
            res_body = Json (JObj [(''success'', JBool False),
                                   (''error'', JStr ''searchWord parameter is required'')])\<rparr>, w)
      | Some word \<Rightarrow>
          if word = [] then
            (\<lparr>res_status = 400,
              res_body = Json (JObj [(''success'', JBool False),
                                     (''error'', JStr ''searchWord parameter is required'')])\<rparr>, w)
          else
            (case svc word w of
               (Inr result, w1) \<Rightarrow> (\<lparr>res_status = 200, res_body = Records result\<rparr>, w1)
             | (Inl err, w1) \<Rightarrow>
                 (\<lparr>res_status = 500,
                   res_body = Json (JObj [(''success'', JBool False),
                                          (''error'', JStr ''Internal server error'')])\<rparr>,
                  console_error ''Search endpoint error:'' err w1)))"

text \<open>The route of index.ts, line 18: the pattern \<open>/search/:searchWord\<close> as the
  framework matches a request path against it. The path is the prefix \<open>/search/\<close>, in
  any letter case, then one segment that is not empty and has no slash, then at most one
  closing slash. The segment is the raw value of the parameter.\<close>

definition to_lower :: "char \<Rightarrow> char" where
  "to_lower c =
     (case map_of (zip ''ABCDEFGHIJKLMNOPQRSTUVWXYZ'' ''abcdefghijklmnopqrstuvwxyz'') c of
        None \<Rightarrow> c
      | Some l \<Rightarrow> l)"

fun strip_prefix_ci :: "string \<Rightarrow> string \<Rightarrow> string option" where
  "strip_prefix_ci [] path = Some path"
| "strip_prefix_ci (p # ps) [] = None"
| "strip_prefix_ci (p # ps) (c # cs) =
     (if to_lower c = to_lower p then strip_prefix_ci ps cs else None)"

definition match_route :: "string \<Rightarrow> string option" where
  "match_route path =
     (case strip_prefix_ci ''/search/'' path of
        None \<Rightarrow> None
      | Some rest \<Rightarrow>
          (let seg = (if rest \<noteq> [] \<and> last rest = CHR ''/'' then butlast rest else rest)
           in if seg \<noteq> [] \<and> CHR ''/'' \<notin> set seg then Some seg else None))"

text \<open>\<open>app.get('/search/:searchWord', ...)\<close>: the answer of the application to a GET
  request, from the request path. A path that does not match the route is answered by the
  framework with 404 and the handler is not called. The framework decodes the matched
  segment before it calls the handler; \<open>decode\<close> stands for \<open>decodeURIComponent\<close>
  (\<open>None\<close> when it throws, which the framework answers with 400 and its own page).\<close>

definition app_get ::
  "(string \<Rightarrow> string option) \<Rightarrow> 'st service \<Rightarrow> string \<Rightarrow> 'st world \<Rightarrow> reply \<times> 'st world" where
  "app_get decode svc path w =
     (case match_route path of
        None \<Rightarrow> (\<lparr>res_status = 404, res_body = ErrorPage\<rparr>, w)
      | Some seg \<Rightarrow>
          (case decode seg of
             None \<Rightarrow> (\<lparr>res_status = 400, res_body = ErrorPage\<rparr>, w)
           | Some searchWord \<Rightarrow> search_handler svc (Some searchWord) w))"

section \<open>The schema\<close>

text \<open>The defaults of the schema (searchResult.ts, lines 19 and 20): a document that is
  inserted without an \<open>image\<close> gets the empty string. The default of \<open>searchDate\<close>
  never applies, the service sets that field in every record.\<close>

definition schema_defaults :: "search_record \<Rightarrow> search_record" where
  "schema_defaults r =
     r\<lparr>image_field := (if image_field r = JUndefined then JStr [] else image_field r)\<rparr>"

section \<open>The record store\<close>

text \<open>Modelled from the spec: the collection behind the Record Store Adapter of
  section 4.1 (in the program the document database reached through
  \<open>findOneAndUpdate\<close>, which is not part of the sources), as the list of its documents.
  Writing a record replaces the document that has the record's \<open>id\<close> with the record,
  all fields at once, and inserts the record if no document has that \<open>id\<close>.\<close>

fun replace_by_id :: "search_record \<Rightarrow> search_record list \<Rightarrow> search_record list" where
  "replace_by_id r [] = [r]"
| "replace_by_id r (x # xs) =
     (if id_field x = id_field r then r # xs else x # replace_by_id r xs)"

text \<open>Modelled from the spec: \<open>upsert(record)\<close> of section 4.1. It returns the stored
  document, which is the record; a failure (\<open>StoreUnavailable\<close>, \<open>StoreWriteError\<close>)
  leaves the store as it was. The spec does not say which writes fail: that is the
  parameter \<open>rejects\<close>.\<close>

definition store_upsert ::
  "(search_record \<Rightarrow> store_error option) \<Rightarrow> search_record list upsert" where
  "store_upsert rejects st r =
     (case rejects r of
        Some err \<Rightarrow> (Inl err, st)
      | None \<Rightarrow> (Inr r, replace_by_id r st))"

section \<open>Vocabulary of the properties\<close>

text \<open>An item has a field when reading it does not give \<open>undefined\<close>.\<close>

definition present :: "jsval \<Rightarrow> string \<Rightarrow> bool" where
  "present item k \<longleftrightarrow> read_prop item k \<noteq> JUndefined"

definition has_natural_id :: "jsval \<Rightarrow> bool" where
  "has_natural_id item \<longleftrightarrow>
     truthy (read_prop item ''trackId'') \<or> truthy (read_prop item ''collectionId'')"

text \<open>Two records describe the same catalog entity with the same data.\<close>

definition same_entity :: "search_record \<Rightarrow> search_record \<Rightarrow> bool" where
  "same_entity a b \<longleftrightarrow>
     id_field a = id_field b \<and> kind a = kind b \<and> artistName a = artistName b
     \<and> collectionName a = collectionName b \<and> collectionViewUrl a = collectionViewUrl b
     \<and> image_field a = image_field b"

fun date_le :: "jsval \<Rightarrow> jsval \<Rightarrow> bool" where
  "date_le (JDate s) (JDate t) = (s \<le> t)"
| "date_le a b = False"

definition same_later :: "search_record \<Rightarrow> search_record \<Rightarrow> bool" where
  "same_later a b \<longleftrightarrow> same_entity a b \<and> date_le (searchDate a) (searchDate b)"

text \<open>Two calls of the store, one in each of two runs, are made for the same item, and
  when both succeeded their documents describe the same entity, the second no earlier.\<close>

fun calls_agree ::
  "jsval \<times> (store_error + search_record) \<Rightarrow> jsval \<times> (store_error + search_record) \<Rightarrow> bool" where
  "calls_agree (i, Inr a) (j, Inr b) = (i = j \<and> same_later a b)"
| "calls_agree (i, x) (j, y) = (i = j)"

text \<open>A call of the store that failed; the documents of the calls that succeeded, in
  the order of the calls.\<close>

definition failed :: "jsval \<times> (store_error + search_record) \<Rightarrow> bool" where
  "failed call = (case snd call of Inl err \<Rightarrow> True | Inr saved \<Rightarrow> False)"

fun saved_of :: "(jsval \<times> (store_error + search_record)) list \<Rightarrow> search_record list" where
  "saved_of [] = []"
| "saved_of ((item, Inl err) # calls) = saved_of calls"
| "saved_of ((item, Inr saved) # calls) = saved # saved_of calls"

fun iterable :: "jsval \<Rightarrow> bool" where
  "iterable (JArr xs) = True"
| "iterable (JStr s) = True"
| "iterable v = False"

section \<open>Concrete catalogs, clocks and stores\<close>

text \<open>A catalog that gives one answer to every request, a clock that shows 1000 at its
  first read and one millisecond more at each read, a store that rejects nothing, and an
  empty world.\<close>

definition serve :: "nat \<Rightarrow> jsval option \<Rightarrow> string \<Rightarrow> response option" where
  "serve st body url = Some \<lparr>status = st, json = body\<rparr>"

definition ticking :: "nat \<Rightarrow> int" where
  "ticking n = 1000 + int n"

definition catalog :: "nat \<Rightarrow> jsval option \<Rightarrow> env" where
  "catalog st body = \<lparr>fetch = serve st body, clock = ticking\<rparr>"

definition with_results :: "jsval \<Rightarrow> jsval option" where
  "with_results v = Some (JObj [(''results'', v)])"

definition no_reject :: "search_record \<Rightarrow> store_error option" where
  "no_reject r = None"

definition reject_artist :: "jsval \<Rightarrow> search_record \<Rightarrow> store_error option" where
  "reject_artist a r = (if artistName r = a then Some StoreWriteError else None)"

definition failing_catalog :: env where
  "failing_catalog = \<lparr>fetch = (\<lambda>url. None), clock = ticking\<rparr>"

definition world0 :: "search_record list world" where
  "world0 = \<lparr>reads = 0, store = [], console = []\<rparr>"

definition podcast :: "int \<Rightarrow> string \<Rightarrow> jsval" where
  "podcast n artist =
     JObj [(''trackId'', JNum n), (''kind'', JStr ''podcast''), (''artistName'', JStr artist),
           (''collectionName'', JStr ''B''), (''collectionViewUrl'', JStr ''http://x''),
           (''artworkUrl600'', JStr ''http://img'')]"

text \<open>Items for the fallback rules: a track whose identifier is 0, a collection whose
  name is the empty string, and an item with no field at all.\<close>

definition zero_track :: jsval where
  "zero_track = JObj [(''trackId'', JNum 0), (''collectionId'', JNum 5)]"

definition zero_ids :: jsval where
  "zero_ids = JObj [(''trackId'', JNum 0), (''collectionId'', JNum 0)]"

definition unnamed_collection :: jsval where
  "unnamed_collection =
     JObj [(''trackId'', JNum 3), (''collectionName'', JStr []), (''trackName'', JStr ''T'')]"

definition bare_item :: jsval where
  "bare_item = JObj []"

definition anonymous :: jsval where
  "anonymous = JObj [(''kind'', JStr ''podcast''), (''artistName'', JStr ''A'')]"

definition empty_artwork :: jsval where
  "empty_artwork =
     JObj [(''trackId'', JNum 4), (''artworkUrl600'', JStr []),
           (''artworkUrl100'', JStr ''http://low'')]"

text \<open>A decoder for segments without escapes: on them \<open>decodeURIComponent\<close> is the
  identity.\<close>

definition unescaped :: "string \<Rightarrow> string option" where
  "unescaped seg = (if CHR ''%'' \<in> set seg then None else Some seg)"

text \<open>A service that throws, for the endpoint's last branch.\<close>

definition throwing :: "string \<Rightarrow> search_record list world
    \<Rightarrow> (js_error + search_record list) \<times> search_record list world" where
  "throwing word w = (Inl TypeError, w)"

section \<open>Building the record\<close>

lemma get_prop_Inr:
  "item \<noteq> JUndefined \<Longrightarrow> item \<noteq> JNull \<Longrightarrow> get_prop item k = Inr (read_prop item k)"
  by (cases item) (simp_all add: read_prop_def)

lemma read_prop_defined:
  "read_prop item k \<noteq> JUndefined \<Longrightarrow> item \<noteq> JUndefined \<and> item \<noteq> JNull"
  by (cases item) (simp_all add: read_prop_def)

lemma build_searchResult_Inr:
  assumes "item \<noteq> JUndefined" and "item \<noteq> JNull"
  shows "build_searchResult e item w =
    (Inr \<lparr> id_field =
              (if truthy (read_prop item ''trackId'') then read_prop item ''trackId''
               else if truthy (read_prop item ''collectionId'')
               then read_prop item ''collectionId''
               else JNum (clock e (reads w))),
            kind = read_prop item ''kind'',
            artistName = read_prop item ''artistName'',
            collectionName =
              js_or (read_prop item ''collectionName'')
                (js_or (read_prop item ''trackName'') (JStr [])),
            collectionViewUrl =
              js_or (read_prop item ''collectionViewUrl'')
                (js_or (read_prop item ''trackViewUrl'') (JStr [])),
            image_field =
              js_or (read_prop item ''artworkUrl600'') (read_prop item ''artworkUrl100''),
            searchDate =
              JDate (clock e (if has_natural_id item then reads w else Suc (reads w))) \<rparr>,
     w\<lparr>reads := (if has_natural_id item then Suc (reads w) else Suc (Suc (reads w)))\<rparr>)"
  using assms
  by (simp add: build_searchResult_def get_prop_Inr Date_now_def has_natural_id_def)

lemma build_searchResult_Inl:
  assumes "item = JUndefined \<or> item = JNull"
  shows "build_searchResult e item w = (Inl TypeError, w)"
  using assms by (auto simp: build_searchResult_def)

text \<open>C5, as amended. The record's \<open>collectionName\<close> is the item's \<open>collectionName\<close>
  when that is truthy, else the item's \<open>trackName\<close> when that is truthy, else the empty
  string; \<open>collectionViewUrl\<close> falls back to \<open>trackViewUrl\<close> and to the empty string
  in the same way. A field that is there but falsy (the empty string, 0, \<open>null\<close>,
  \<open>false\<close>) is passed over like a missing one.\<close>

theorem collection_fallback_truthy:
  assumes "item \<noteq> JUndefined" and "item \<noteq> JNull"
  shows "\<exists>r. fst (build_searchResult e item w) = Inr r
    \<and> collectionName r =
        (if truthy (read_prop item ''collectionName'') then read_prop item ''collectionName''
         else if truthy (read_prop item ''trackName'') then read_prop item ''trackName''
         else JStr [])
    \<and> collectionViewUrl r =
        (if truthy (read_prop item ''collectionViewUrl'') then read_prop item ''collectionViewUrl''
         else if truthy (read_prop item ''trackViewUrl'') then read_prop item ''trackViewUrl''
         else JStr [])"
  by (simp add: build_searchResult_Inr [OF assms] js_or_def)

theorem collection_fallback_truthy_witness:
  "unnamed_collection \<noteq> JUndefined \<and> unnamed_collection \<noteq> JNull
   \<and> (\<exists>r. fst (build_searchResult (catalog 200 None) unnamed_collection world0) = Inr r
        \<and> collectionName r = JStr ''T'' \<and> collectionViewUrl r = JStr [])"
  using collection_fallback_truthy [of unnamed_collection "catalog 200 None" world0]
  by (simp add: unnamed_collection_def read_prop_def)

text \<open>C5, as stated, fails. The item below has a \<open>collectionName\<close> (the empty string)
  and a \<open>trackName\<close>; the record takes the track name.\<close>

theorem collection_present_counterexample:
  "present unnamed_collection ''collectionName''
   \<and> read_prop unnamed_collection ''collectionName'' = JStr []
   \<and> map_sum id collectionName (fst (build_searchResult (catalog 200 None) unnamed_collection world0))
       = Inr (JStr ''T'')"
  by (simp add: present_def unnamed_collection_def read_prop_def build_searchResult_def
      Date_now_def js_or_def catalog_def ticking_def world0_def)

text \<open>C7, as amended. The record's \<open>id\<close> is the item's \<open>trackId\<close> when that is
  truthy, else the item's \<open>collectionId\<close> when that is truthy, else the clock's
  reading (\<open>Date.now()\<close>).\<close>

theorem id_fallback_truthy:
  assumes "item \<noteq> JUndefined" and "item \<noteq> JNull"
  shows "\<exists>r. fst (build_searchResult e item w) = Inr r
    \<and> id_field r =
        (if truthy (read_prop item ''trackId'') then read_prop item ''trackId''
         else if truthy (read_prop item ''collectionId'') then read_prop item ''collectionId''
         else JNum (clock e (reads w)))"
  by (simp add: build_searchResult_Inr [OF assms])

theorem id_fallback_truthy_witness:
  "podcast 7 ''A'' \<noteq> JUndefined \<and> podcast 7 ''A'' \<noteq> JNull
   \<and> (\<exists>r. fst (build_searchResult (catalog 200 None) (podcast 7 ''A'') world0) = Inr r
        \<and> id_field r = JNum 7)"
  using id_fallback_truthy [of "podcast 7 ''A''" "catalog 200 None" world0]
  by (simp add: podcast_def read_prop_def)

text \<open>C7, as stated, fails. The item below has a \<open>trackId\<close>, the number 0, and the
  record's \<open>id\<close> is its \<open>collectionId\<close>.\<close>

theorem id_present_counterexample:
  "present zero_track ''trackId'' \<and> read_prop zero_track ''trackId'' = JNum 0
   \<and> map_sum id id_field (fst (build_searchResult (catalog 200 None) zero_track world0))
       = Inr (JNum 5)"
  by (simp add: present_def zero_track_def read_prop_def build_searchResult_def
      Date_now_def catalog_def ticking_def world0_def)

text \<open>C10. When the item's \<open>trackId\<close> is the number 0, the record's \<open>id\<close> is the
  \<open>collectionId\<close> if that is truthy and the clock's reading otherwise; when the
  \<open>trackId\<close> is falsy and the \<open>collectionId\<close> is the number 0, it is the clock's
  reading. In both cases it is not the number 0, unless the clock itself reads 0.\<close>

theorem zero_id_skipped:
  "(read_prop item ''trackId'' = JNum 0 \<longrightarrow>
      (\<exists>r. fst (build_searchResult e item w) = Inr r
         \<and> id_field r =
             (if truthy (read_prop item ''collectionId'') then read_prop item ''collectionId''
              else JNum (clock e (reads w)))
         \<and> (clock e (reads w) \<noteq> 0 \<longrightarrow> id_field r \<noteq> JNum 0)))
   \<and> (\<not> truthy (read_prop item ''trackId'') \<and> read_prop item ''collectionId'' = JNum 0 \<longrightarrow>
      (\<exists>r. fst (build_searchResult e item w) = Inr r
         \<and> id_field r = JNum (clock e (reads w))))"
proof (intro conjI impI)
  assume t: "read_prop item ''trackId'' = JNum 0"
  then have "item \<noteq> JUndefined" and "item \<noteq> JNull"
    using read_prop_defined [of item "''trackId''"] by simp_all
  then show "\<exists>r. fst (build_searchResult e item w) = Inr r
         \<and> id_field r =
             (if truthy (read_prop item ''collectionId'') then read_prop item ''collectionId''
              else JNum (clock e (reads w)))
         \<and> (clock e (reads w) \<noteq> 0 \<longrightarrow> id_field r \<noteq> JNum 0)"
    using t by (auto simp: build_searchResult_Inr)
next
  assume c: "\<not> truthy (read_prop item ''trackId'') \<and> read_prop item ''collectionId'' = JNum 0"
  then have "item \<noteq> JUndefined" and "item \<noteq> JNull"
    using read_prop_defined [of item "''collectionId''"] by simp_all
  then show "\<exists>r. fst (build_searchResult e item w) = Inr r
         \<and> id_field r = JNum (clock e (reads w))"
    using c by (simp add: build_searchResult_Inr)
qed

theorem zero_id_skipped_witness:
  "read_prop zero_track ''trackId'' = JNum 0
   \<and> (\<exists>r. fst (build_searchResult (catalog 200 None) zero_track world0) = Inr r
        \<and> id_field r = JNum 5)
   \<and> \<not> truthy (read_prop zero_ids ''trackId'') \<and> read_prop zero_ids ''collectionId'' = JNum 0
   \<and> (\<exists>r. fst (build_searchResult (catalog 200 None) zero_ids world0) = Inr r
        \<and> id_field r = JNum 1000)"
  using zero_id_skipped [of zero_track "catalog 200 None" world0]
    zero_id_skipped [of zero_ids "catalog 200 None" world0]
  by (auto simp: zero_track_def zero_ids_def read_prop_def catalog_def ticking_def world0_def)

section \<open>The loop and the outer handler\<close>

lemma save_loop_trace:
  "fst (save_loop U e items acc w) = acc @ saved_of (upsert_trace U e items w)"
proof (induction items arbitrary: acc w)
  case Nil
  show ?case by simp
next
  case (Cons item items)
  obtain b w1 where b: "build_searchResult e item w = (b, w1)"
    by (cases "build_searchResult e item w")
  show ?case
  proof (cases b)
    case (Inl err)
    with b Cons show ?thesis by (simp add: save_item_def)
  next
    case (Inr r)
    obtain res st where u: "U (store w1) r = (res, st)"
      by (cases "U (store w1) r")
    show ?thesis
      using b Inr u Cons by (cases res) (simp_all add: save_item_def)
  qed
qed

lemma trace_items:
  "\<forall>item\<in>set items. item \<noteq> JUndefined \<and> item \<noteq> JNull \<Longrightarrow>
   map fst (upsert_trace U e items w) = items"
proof (induction items arbitrary: w)
  case Nil
  show ?case by simp
next
  case (Cons item items)
  then have ok: "item \<noteq> JUndefined" "item \<noteq> JNull" by simp_all
  from Cons have IH: "\<And>w. map fst (upsert_trace U e items w) = items" by simp
  obtain r w1 where b: "build_searchResult e item w = (Inr r, w1)"
    using build_searchResult_Inr [OF ok] by blast
  obtain res st where u: "U (store w1) r = (res, st)"
    by (cases "U (store w1) r")
  show ?case using b u IH by (cases res) simp_all
qed

lemma saved_of_length:
  "length (saved_of calls) + length (filter failed calls) = length calls"
  by (induction calls rule: saved_of.induct) (simp_all add: failed_def)

lemma saved_of_filter:
  "map Inr (saved_of calls) = map snd (filter (\<lambda>call. \<not> failed call) calls)"
  by (induction calls rule: saved_of.induct) (simp_all add: failed_def)

lemma searchAndSave_Inr:
  "fetch_results e searchWord = Inr items \<Longrightarrow>
   fst (searchAndSave U e searchWord w) = Inr (saved_of (upsert_trace U e items w))"
  using save_loop_trace [of U e items "[]" w]
  by (auto simp: searchAndSave_def searchAndSave_try_def split: prod.splits)

lemma searchAndSave_Inl:
  "fetch_results e searchWord = Inl err \<Longrightarrow>
   searchAndSave U e searchWord w = (Inr [], console_error ''Error in searchAndSave:'' err w)"
  by (simp add: searchAndSave_def searchAndSave_try_def)

lemma searchAndSave_returns: "\<exists>saved. fst (searchAndSave U e searchWord w) = Inr saved"
  by (cases "fetch_results e searchWord") (simp_all add: searchAndSave_Inl searchAndSave_Inr)

lemma fetch_results_not_iterable:
  assumes "fetch e (search_url searchWord) = None
     \<or> (\<exists>resp. fetch e (search_url searchWord) = Some resp
          \<and> (\<not> ok resp \<or> json resp = None
               \<or> (\<exists>data. json resp = Some data \<and> \<not> iterable (read_prop data ''results''))))"
  shows "\<exists>err. fetch_results e searchWord = Inl err"
proof -
  have it: "\<And>v. \<not> iterable v \<Longrightarrow> iterate v = Inl TypeError"
    subgoal for v by (cases v) simp_all
    done
  have gp: "\<And>data. \<not> iterable (read_prop data ''results'') \<Longrightarrow>
      (case get_prop data ''results'' of Inl err \<Rightarrow> Inl err | Inr results \<Rightarrow> iterate results)
        = Inl TypeError"
    subgoal for data by (cases data) (simp_all add: read_prop_def it)
    done
  from assms show ?thesis
    by (auto simp: fetch_results_def gp)
qed

text \<open>C1, as amended. When the request is rejected, the response status is not a
  success, the body is not JSON, or the parsed body has no iterable \<open>results\<close> (the
  body is \<open>null\<close>, or \<open>results\<close> is missing, \<open>null\<close>, a boolean, a number or
  a plain object), \<open>searchAndSave\<close> returns the empty list and leaves the store as it
  was. For every input it returns a list: no exception leaves the function.\<close>

theorem failure_absorbed:
  "(fetch e (search_url searchWord) = None
     \<or> (\<exists>resp. fetch e (search_url searchWord) = Some resp
          \<and> (\<not> ok resp \<or> json resp = None
               \<or> (\<exists>data. json resp = Some data \<and> \<not> iterable (read_prop data ''results''))))
    \<longrightarrow> fst (searchAndSave U e searchWord w) = Inr []
        \<and> store (snd (searchAndSave U e searchWord w)) = store w)
   \<and> (\<exists>saved. fst (searchAndSave U e searchWord w) = Inr saved)"
proof (intro conjI impI)
  assume "fetch e (search_url searchWord) = None
     \<or> (\<exists>resp. fetch e (search_url searchWord) = Some resp
          \<and> (\<not> ok resp \<or> json resp = None
               \<or> (\<exists>data. json resp = Some data \<and> \<not> iterable (read_prop data ''results''))))"
  then obtain err where "fetch_results e searchWord = Inl err"
    using fetch_results_not_iterable by blast
  then show "fst (searchAndSave U e searchWord w) = Inr []"
    and "store (snd (searchAndSave U e searchWord w)) = store w"
    by (simp_all add: searchAndSave_Inl console_error_def)
next
  show "\<exists>saved. fst (searchAndSave U e searchWord w) = Inr saved"
    by (rule searchAndSave_returns)
qed

theorem failure_absorbed_witness:
  "fetch failing_catalog (search_url ''jazz'') = None
   \<and> fst (searchAndSave (store_upsert no_reject) failing_catalog ''jazz'' world0) = Inr []
   \<and> fetch (catalog 503 None) (search_url ''jazz'') = Some \<lparr>status = 503, json = None\<rparr>
   \<and> \<not> ok \<lparr>status = 503, json = None\<rparr>
   \<and> fst (searchAndSave (store_upsert no_reject) (catalog 503 None) ''jazz'' world0) = Inr []
   \<and> fetch (catalog 200 (with_results (JNum 4))) (search_url ''jazz'')
       = Some \<lparr>status = 200, json = with_results (JNum 4)\<rparr>
   \<and> \<not> iterable (read_prop (JObj [(''results'', JNum 4)]) ''results'')
   \<and> fst (searchAndSave (store_upsert no_reject) (catalog 200 (with_results (JNum 4))) ''jazz'' world0)
       = Inr []"
  using failure_absorbed [of failing_catalog "''jazz''" "store_upsert no_reject" world0]
    failure_absorbed [of "catalog 503 None" "''jazz''" "store_upsert no_reject" world0]
    failure_absorbed [of "catalog 200 (with_results (JNum 4))" "''jazz''" "store_upsert no_reject" world0]
  by (simp add: failing_catalog_def catalog_def serve_def ok_def with_results_def read_prop_def)

text \<open>C1, as stated, fails. A body whose \<open>results\<close> is the string \<open>ab\<close> holds no
  sequence of catalog items, yet the loop runs over its two characters, and with a store
  that accepts them two documents are returned.\<close>

theorem string_results_counterexample:
  "with_results (JStr ''ab'') = Some (JObj [(''results'', JStr ''ab'')])
   \<and> fst (searchAndSave (store_upsert no_reject) (catalog 200 (with_results (JStr ''ab''))) ''jazz'' world0)
     = Inr [\<lparr>id_field = JNum 1000, kind = JUndefined, artistName = JUndefined,
             collectionName = JStr [], collectionViewUrl = JStr [],
             image_field = JUndefined, searchDate = JDate 1001\<rparr>,
            \<lparr>id_field = JNum 1002, kind = JUndefined, artistName = JUndefined,
             collectionName = JStr [], collectionViewUrl = JStr [],
             image_field = JUndefined, searchDate = JDate 1003\<rparr>]"
  by (simp add: searchAndSave_def searchAndSave_try_def fetch_results_def catalog_def serve_def
      ok_def with_results_def save_item_def build_searchResult_def read_prop_def Date_now_def
      js_or_def ticking_def world0_def store_upsert_def no_reject_def)

text \<open>C3. For a successful answer whose items are JSON values other than \<open>null\<close>
  (the catalog's items are objects) and for every search word, the store is called once
  for each item, in the order of the items; the function returns the documents of the
  calls that succeeded, in that order, and their number is the number of items minus the
  number of calls that failed.\<close>

theorem saved_length_and_order:
  assumes "fetch_results e searchWord = Inr items"
    and "\<forall>item\<in>set items. item \<noteq> JUndefined \<and> item \<noteq> JNull"
  shows "\<exists>saved. fst (searchAndSave U e searchWord w) = Inr saved
    \<and> map fst (upsert_trace U e items w) = items
    \<and> length saved = length items - length (filter failed (upsert_trace U e items w))
    \<and> map Inr saved = map snd (filter (\<lambda>call. \<not> failed call) (upsert_trace U e items w))"
proof -
  let ?calls = "upsert_trace U e items w"
  have r: "fst (searchAndSave U e searchWord w) = Inr (saved_of ?calls)"
    using assms(1) by (rule searchAndSave_Inr)
  have m: "map fst ?calls = items"
    using assms(2) by (rule trace_items)
  then have "length ?calls = length items"
    by (metis length_map)
  then have "length (saved_of ?calls) = length items - length (filter failed ?calls)"
    using saved_of_length [of ?calls] by arith
  with r m saved_of_filter [of ?calls] show ?thesis by simp
qed

theorem saved_length_and_order_witness:
  "fetch_results (catalog 200 (with_results (JArr [podcast 1 ''A'', podcast 2 ''bad'', podcast 3 ''C''])))
      ''jazz'' = Inr [podcast 1 ''A'', podcast 2 ''bad'', podcast 3 ''C'']
   \<and> podcast 1 ''A'' \<noteq> JUndefined \<and> podcast 1 ''A'' \<noteq> JNull
   \<and> podcast 2 ''bad'' \<noteq> JUndefined \<and> podcast 2 ''bad'' \<noteq> JNull
   \<and> podcast 3 ''C'' \<noteq> JUndefined \<and> podcast 3 ''C'' \<noteq> JNull
   \<and> (\<exists>saved. fst (searchAndSave (store_upsert (reject_artist (JStr ''bad'')))
          (catalog 200 (with_results (JArr [podcast 1 ''A'', podcast 2 ''bad'', podcast 3 ''C''])))
          ''jazz'' world0) = Inr saved
        \<and> length saved = 2 \<and> map id_field saved = [JNum 1, JNum 3])"
proof -
  let ?items = "[podcast 1 ''A'', podcast 2 ''bad'', podcast 3 ''C'']"
  let ?e = "catalog 200 (with_results (JArr ?items))"
  let ?U = "store_upsert (reject_artist (JStr ''bad''))"
  have f: "fetch_results ?e ''jazz'' = Inr ?items"
    by (simp add: fetch_results_def catalog_def serve_def ok_def with_results_def)
  have n: "\<forall>item\<in>set ?items. item \<noteq> JUndefined \<and> item \<noteq> JNull"
    by (simp add: podcast_def)
  have t: "upsert_trace ?U ?e ?items world0 =
     [(podcast 1 ''A'', Inr \<lparr>id_field = JNum 1, kind = JStr ''podcast'', artistName = JStr ''A'',
          collectionName = JStr ''B'', collectionViewUrl = JStr ''http://x'',
          image_field = JStr ''http://img'', searchDate = JDate 1000\<rparr>),
      (podcast 2 ''bad'', Inl StoreWriteError),
      (podcast 3 ''C'', Inr \<lparr>id_field = JNum 3, kind = JStr ''podcast'', artistName = JStr ''C'',
          collectionName = JStr ''B'', collectionViewUrl = JStr ''http://x'',
          image_field = JStr ''http://img'', searchDate = JDate 1002\<rparr>)]"
    by (simp add: build_searchResult_def read_prop_def Date_now_def js_or_def catalog_def
        ticking_def world0_def store_upsert_def reject_artist_def podcast_def console_error_def)
  from saved_length_and_order [OF f n, of ?U world0]
  obtain saved where s: "fst (searchAndSave ?U ?e ''jazz'' world0) = Inr saved"
    and l: "length saved = length ?items - length (filter failed (upsert_trace ?U ?e ?items world0))"
    and o: "map Inr saved = map snd (filter (\<lambda>call. \<not> failed call) (upsert_trace ?U ?e ?items world0))"
    by blast
  from l [unfolded t] have l2: "length saved = 2" by (simp add: failed_def)
  from o [unfolded t] have ids: "map id_field saved = [JNum 1, JNum 3]"
    by (auto simp: failed_def map_eq_Cons_conv)
  have e: "\<exists>saved. fst (searchAndSave ?U ?e ''jazz'' world0) = Inr saved
        \<and> length saved = 2 \<and> map id_field saved = [JNum 1, JNum 3]"
    using s l2 ids by (intro exI [of _ saved] conjI)
  have "podcast 1 ''A'' \<noteq> JUndefined \<and> podcast 1 ''A'' \<noteq> JNull
   \<and> podcast 2 ''bad'' \<noteq> JUndefined \<and> podcast 2 ''bad'' \<noteq> JNull
   \<and> podcast 3 ''C'' \<noteq> JUndefined \<and> podcast 3 ''C'' \<noteq> JNull"
    by (simp add: podcast_def)
  with f e show ?thesis by (simp only: simp_thms)
qed

text \<open>C2. For a successful answer whose items are JSON values other than \<open>null\<close>:
  if the call of the store fails for exactly one item, the loop still calls the store for
  every item after it, and the function returns, as a list and not as an exception, the
  documents of all the other items in order, one fewer than the items.\<close>

theorem one_failure_isolated:
  assumes "fetch_results e searchWord = Inr items"
    and "\<forall>item\<in>set items. item \<noteq> JUndefined \<and> item \<noteq> JNull"
    and "upsert_trace U e items w = before @ [(bad, Inl err)] @ after"
    and "\<forall>call\<in>set (before @ after). \<not> failed call"
  shows "fst (searchAndSave U e searchWord w) = Inr (saved_of before @ saved_of after)
    \<and> items = map fst before @ [bad] @ map fst after
    \<and> map Inr (saved_of before) = map snd before
    \<and> map Inr (saved_of after) = map snd after
    \<and> length (saved_of before @ saved_of after) = length items - 1"
proof -
  have app: "\<And>xs ys. saved_of (xs @ ys) = saved_of xs @ saved_of ys"
    subgoal for xs ys by (induction xs rule: saved_of.induct) simp_all
    done
  have all: "\<And>xs. \<forall>call\<in>set xs. \<not> failed call \<Longrightarrow> map Inr (saved_of xs) = map snd xs"
    subgoal for xs by (simp add: saved_of_filter)
    done
  have r: "fst (searchAndSave U e searchWord w) = Inr (saved_of before @ saved_of after)"
    using searchAndSave_Inr [OF assms(1), of U w] by (simp add: assms(3) app)
  have i: "items = map fst before @ [bad] @ map fst after"
    using trace_items [OF assms(2), of U e w] by (simp add: assms(3))
  have b: "map Inr (saved_of before) = map snd before"
    and a: "map Inr (saved_of after) = map snd after"
    using assms(4) by (simp_all add: all)
  have "length (saved_of before) = length before" and "length (saved_of after) = length after"
    using arg_cong [OF b, of length] arg_cong [OF a, of length] by simp_all
  then have "length (saved_of before @ saved_of after) = length items - 1"
    by (simp add: i)
  with r i b a show ?thesis by simp
qed

lemma trace_example:
  "upsert_trace (store_upsert (reject_artist (JStr ''bad'')))
     (catalog 200 (with_results (JArr [podcast 1 ''A'', podcast 2 ''bad'', podcast 3 ''C''])))
     [podcast 1 ''A'', podcast 2 ''bad'', podcast 3 ''C''] world0 =
     [(podcast 1 ''A'', Inr \<lparr>id_field = JNum 1, kind = JStr ''podcast'', artistName = JStr ''A'',
          collectionName = JStr ''B'', collectionViewUrl = JStr ''http://x'',
          image_field = JStr ''http://img'', searchDate = JDate 1000\<rparr>)]
     @ [(podcast 2 ''bad'', Inl StoreWriteError)]
     @ [(podcast 3 ''C'', Inr \<lparr>id_field = JNum 3, kind = JStr ''podcast'', artistName = JStr ''C'',
          collectionName = JStr ''B'', collectionViewUrl = JStr ''http://x'',
          image_field = JStr ''http://img'', searchDate = JDate 1002\<rparr>)]"
  by (simp add: build_searchResult_def read_prop_def Date_now_def js_or_def catalog_def
      ticking_def world0_def store_upsert_def reject_artist_def podcast_def console_error_def)

lemma fetch_example:
  "fetch_results (catalog 200 (with_results (JArr items))) searchWord = Inr items"
  by (simp add: fetch_results_def catalog_def serve_def ok_def with_results_def)

theorem one_failure_isolated_witness:
  "fetch_results (catalog 200 (with_results (JArr [podcast 1 ''A'', podcast 2 ''bad'', podcast 3 ''C''])))
      ''jazz'' = Inr [podcast 1 ''A'', podcast 2 ''bad'', podcast 3 ''C'']
   \<and> podcast 1 ''A'' \<noteq> JUndefined \<and> podcast 1 ''A'' \<noteq> JNull
   \<and> podcast 2 ''bad'' \<noteq> JUndefined \<and> podcast 2 ''bad'' \<noteq> JNull
   \<and> podcast 3 ''C'' \<noteq> JUndefined \<and> podcast 3 ''C'' \<noteq> JNull
   \<and> fst (searchAndSave (store_upsert (reject_artist (JStr ''bad'')))
          (catalog 200 (with_results (JArr [podcast 1 ''A'', podcast 2 ''bad'', podcast 3 ''C''])))
          ''jazz'' world0) =
       Inr [\<lparr>id_field = JNum 1, kind = JStr ''podcast'', artistName = JStr ''A'',
             collectionName = JStr ''B'', collectionViewUrl = JStr ''http://x'',
             image_field = JStr ''http://img'', searchDate = JDate 1000\<rparr>,
            \<lparr>id_field = JNum 3, kind = JStr ''podcast'', artistName = JStr ''C'',
             collectionName = JStr ''B'', collectionViewUrl = JStr ''http://x'',
             image_field = JStr ''http://img'', searchDate = JDate 1002\<rparr>]"
proof -
  let ?items = "[podcast 1 ''A'', podcast 2 ''bad'', podcast 3 ''C'']"
  have n: "\<forall>item\<in>set ?items. item \<noteq> JUndefined \<and> item \<noteq> JNull"
    by (simp add: podcast_def)
  have c: "\<forall>call\<in>set ([(podcast 1 ''A'', Inr \<lparr>id_field = JNum 1, kind = JStr ''podcast'', artistName = JStr ''A'',
          collectionName = JStr ''B'', collectionViewUrl = JStr ''http://x'',
          image_field = JStr ''http://img'', searchDate = JDate 1000\<rparr>)]
     @ [(podcast 3 ''C'', Inr \<lparr>id_field = JNum 3, kind = JStr ''podcast'', artistName = JStr ''C'',
          collectionName = JStr ''B'', collectionViewUrl = JStr ''http://x'',
          image_field = JStr ''http://img'', searchDate = JDate 1002\<rparr>)]). \<not> failed call"
    by (simp add: failed_def)
  from one_failure_isolated [OF fetch_example n trace_example c, of "''jazz''"]
  have "fst (searchAndSave (store_upsert (reject_artist (JStr ''bad'')))
          (catalog 200 (with_results (JArr ?items))) ''jazz'' world0) =
       Inr [\<lparr>id_field = JNum 1, kind = JStr ''podcast'', artistName = JStr ''A'',
             collectionName = JStr ''B'', collectionViewUrl = JStr ''http://x'',
             image_field = JStr ''http://img'', searchDate = JDate 1000\<rparr>,
            \<lparr>id_field = JNum 3, kind = JStr ''podcast'', artistName = JStr ''C'',
             collectionName = JStr ''B'', collectionViewUrl = JStr ''http://x'',
             image_field = JStr ''http://img'', searchDate = JDate 1002\<rparr>]"
    by simp
  moreover have "podcast 1 ''A'' \<noteq> JUndefined \<and> podcast 1 ''A'' \<noteq> JNull
   \<and> podcast 2 ''bad'' \<noteq> JUndefined \<and> podcast 2 ''bad'' \<noteq> JNull
   \<and> podcast 3 ''C'' \<noteq> JUndefined \<and> podcast 3 ''C'' \<noteq> JNull"
    by (simp add: podcast_def)
  ultimately show ?thesis by (simp only: fetch_example simp_thms)
qed

section \<open>The answers of the endpoint\<close>

lemma search_handler_answers:
  "fst (search_handler svc None w) =
     \<lparr>res_status = 400,
      res_body = Json (JObj [(''success'', JBool False),
                             (''error'', JStr ''searchWord parameter is required'')])\<rparr>
   \<and> fst (search_handler svc (Some []) w) =
     \<lparr>res_status = 400,
      res_body = Json (JObj [(''success'', JBool False),
                             (''error'', JStr ''searchWord parameter is required'')])\<rparr>
   \<and> (word \<noteq> [] \<and> fst (svc word w) = Inr result \<longrightarrow>
        fst (search_handler svc (Some word) w) = \<lparr>res_status = 200, res_body = Records result\<rparr>)
   \<and> (word \<noteq> [] \<and> fst (svc word w) = Inl err \<longrightarrow>
        fst (search_handler svc (Some word) w) =
          \<lparr>res_status = 500,
           res_body = Json (JObj [(''success'', JBool False),
                                  (''error'', JStr ''Internal server error'')])\<rparr>)
   \<and> (word \<noteq> [] \<longrightarrow>
        (\<exists>saved. fst (searchAndSave U e word w') = Inr saved
           \<and> fst (search_handler (searchAndSave U e) (Some word) w') =
               \<lparr>res_status = 200, res_body = Records saved\<rparr>))
   \<and> (word \<noteq> [] \<and> (fetch_results e word = Inr [] \<or> fetch_results e word = Inl err') \<longrightarrow>
        fst (search_handler (searchAndSave U e) (Some word) w') =
          \<lparr>res_status = 200, res_body = Records []\<rparr>)"
proof (intro conjI impI)
  show "fst (search_handler svc None w) =
     \<lparr>res_status = 400,
      res_body = Json (JObj [(''success'', JBool False),
                             (''error'', JStr ''searchWord parameter is required'')])\<rparr>"
    by (simp add: search_handler_def)
  show "fst (search_handler svc (Some []) w) =
     \<lparr>res_status = 400,
      res_body = Json (JObj [(''success'', JBool False),
                             (''error'', JStr ''searchWord parameter is required'')])\<rparr>"
    by (simp add: search_handler_def)
next
  assume "word \<noteq> [] \<and> fst (svc word w) = Inr result"
  then show "fst (search_handler svc (Some word) w) =
      \<lparr>res_status = 200, res_body = Records result\<rparr>"
    by (cases "svc word w") (simp add: search_handler_def)
next
  assume "word \<noteq> [] \<and> fst (svc word w) = Inl err"
  then show "fst (search_handler svc (Some word) w) =
          \<lparr>res_status = 500,
           res_body = Json (JObj [(''success'', JBool False),
                                  (''error'', JStr ''Internal server error'')])\<rparr>"
    by (cases "svc word w") (simp add: search_handler_def)
next
  assume t: "word \<noteq> []"
  obtain saved where s: "fst (searchAndSave U e word w') = Inr saved"
    using searchAndSave_returns by blast
  with t have "fst (search_handler (searchAndSave U e) (Some word) w') =
      \<lparr>res_status = 200, res_body = Records saved\<rparr>"
    by (cases "searchAndSave U e word w'") (simp add: search_handler_def)
  with s show "\<exists>saved. fst (searchAndSave U e word w') = Inr saved
           \<and> fst (search_handler (searchAndSave U e) (Some word) w') =
               \<lparr>res_status = 200, res_body = Records saved\<rparr>"
    by blast
next
  assume a: "word \<noteq> [] \<and> (fetch_results e word = Inr [] \<or> fetch_results e word = Inl err')"
  then have "fst (searchAndSave U e word w') = Inr []"
    by (auto simp: searchAndSave_Inl searchAndSave_Inr)
  with a show "fst (search_handler (searchAndSave U e) (Some word) w') =
          \<lparr>res_status = 200, res_body = Records []\<rparr>"
    by (cases "searchAndSave U e word w'") (simp add: search_handler_def)
qed

lemma fetch_results_503: "fetch_results (catalog 503 None) searchWord = Inl (RequestFailed 503)"
  by (simp add: fetch_results_def catalog_def serve_def ok_def)

lemma throwing_Inl: "fst (throwing word w) = Inl TypeError"
  by (simp add: throwing_def)

lemma match_route_nonempty: "match_route path = Some seg \<Longrightarrow> seg \<noteq> []"
  by (auto simp: match_route_def Let_def split: option.splits if_splits)

lemma match_route_empty_segment: "match_route ''/search/'' = None"
  by (simp add: match_route_def to_lower_def)

lemma match_route_jazz: "match_route ''/search/jazz'' = Some ''jazz''"
  by (simp add: match_route_def to_lower_def)

text \<open>C4. A GET request without a search word, with the path \<open>/search/\<close>, does not
  match the route: the framework answers 404, and the handler, whose answer to a missing
  or empty word would be 400, is not called. A matched segment is not empty and stays so
  when it is decoded, hence no request at all is answered with 400 and the body
  \<open>{success: false, error: "searchWord parameter is required"}\<close>. A request that
  reaches the handler is answered 200 with the list the service returned, and 500 with
  the body \<open>{success: false, error: "Internal server error"}\<close> when the service throws;
  with \<open>searchAndSave\<close> as the service it is 200 with the returned list.\<close>

theorem search_route_answers:
  assumes "\<forall>seg. seg \<noteq> [] \<longrightarrow> decode seg \<noteq> Some []"
  shows "fst (app_get decode svc ''/search/'' w) = \<lparr>res_status = 404, res_body = ErrorPage\<rparr>
   \<and> fst (app_get decode svc path w) \<noteq>
       \<lparr>res_status = 400,
        res_body = Json (JObj [(''success'', JBool False),
                               (''error'', JStr ''searchWord parameter is required'')])\<rparr>
   \<and> (match_route path = Some seg \<and> decode seg = Some word \<and> fst (svc word w) = Inr result \<longrightarrow>
        fst (app_get decode svc path w) = \<lparr>res_status = 200, res_body = Records result\<rparr>)
   \<and> (match_route path = Some seg \<and> decode seg = Some word \<and> fst (svc word w) = Inl err \<longrightarrow>
        fst (app_get decode svc path w) =
          \<lparr>res_status = 500,
           res_body = Json (JObj [(''success'', JBool False),
                                  (''error'', JStr ''Internal server error'')])\<rparr>)
   \<and> (match_route path = Some seg \<and> decode seg = Some word \<longrightarrow>
        (\<exists>saved. fst (searchAndSave U e word w') = Inr saved
           \<and> fst (app_get decode (searchAndSave U e) path w') =
               \<lparr>res_status = 200, res_body = Records saved\<rparr>))"
proof (intro conjI impI)
  show "fst (app_get decode svc ''/search/'' w) = \<lparr>res_status = 404, res_body = ErrorPage\<rparr>"
    by (simp add: app_get_def match_route_empty_segment)
next
  show "fst (app_get decode svc path w) \<noteq>
       \<lparr>res_status = 400,
        res_body = Json (JObj [(''success'', JBool False),
                               (''error'', JStr ''searchWord parameter is required'')])\<rparr>"
  proof (cases "match_route path")
    case None
    then show ?thesis by (simp add: app_get_def)
  next
    case (Some seg)
    then have seg: "seg \<noteq> []" by (rule match_route_nonempty)
    show ?thesis
    proof (cases "decode seg")
      case None
      with Some show ?thesis by (simp add: app_get_def)
    next
      case (Some word)
      with seg assms have "word \<noteq> []" by auto
      then show ?thesis
        using \<open>match_route path = Some seg\<close> Some
        by (cases "svc word w"; cases "fst (svc word w)")
          (simp_all add: app_get_def search_handler_def)
    qed
  qed
next
  assume a: "match_route path = Some seg \<and> decode seg = Some word \<and> fst (svc word w) = Inr result"
  then have "seg \<noteq> []" using match_route_nonempty by blast
  with a assms have "word \<noteq> []" by auto
  with a show "fst (app_get decode svc path w) = \<lparr>res_status = 200, res_body = Records result\<rparr>"
    by (cases "svc word w") (simp add: app_get_def search_handler_def)
next
  assume a: "match_route path = Some seg \<and> decode seg = Some word \<and> fst (svc word w) = Inl err"
  then have "seg \<noteq> []" using match_route_nonempty by blast
  with a assms have "word \<noteq> []" by auto
  with a show "fst (app_get decode svc path w) =
          \<lparr>res_status = 500,
           res_body = Json (JObj [(''success'', JBool False),
                                  (''error'', JStr ''Internal server error'')])\<rparr>"
    by (cases "svc word w") (simp add: app_get_def search_handler_def)
next
  assume a: "match_route path = Some seg \<and> decode seg = Some word"
  then have "seg \<noteq> []" using match_route_nonempty by blast
  with a assms have word: "word \<noteq> []" by auto
  obtain saved where s: "fst (searchAndSave U e word w') = Inr saved"
    using searchAndSave_returns by blast
  with a word have "fst (app_get decode (searchAndSave U e) path w') =
      \<lparr>res_status = 200, res_body = Records saved\<rparr>"
    by (cases "searchAndSave U e word w'") (simp add: app_get_def search_handler_def)
  with s show "\<exists>saved. fst (searchAndSave U e word w') = Inr saved
           \<and> fst (app_get decode (searchAndSave U e) path w') =
               \<lparr>res_status = 200, res_body = Records saved\<rparr>"
    by blast
qed

lemma unescaped_nonempty: "\<forall>seg. seg \<noteq> [] \<longrightarrow> unescaped seg \<noteq> Some []"
  by (simp add: unescaped_def)

lemma unescaped_jazz: "unescaped ''jazz'' = Some ''jazz''"
  by (simp add: unescaped_def)

theorem search_route_answers_witness:
  "fst (app_get unescaped throwing ''/search/'' world0) = \<lparr>res_status = 404, res_body = ErrorPage\<rparr>
   \<and> match_route ''/search/jazz'' = Some ''jazz'' \<and> unescaped ''jazz'' = Some ''jazz''
   \<and> fst (throwing ''jazz'' world0) = Inl TypeError
   \<and> fst (app_get unescaped throwing ''/search/jazz'' world0) =
       \<lparr>res_status = 500,
        res_body = Json (JObj [(''success'', JBool False),
                               (''error'', JStr ''Internal server error'')])\<rparr>
   \<and> fst (app_get unescaped (searchAndSave (store_upsert no_reject) (catalog 503 None))
        ''/search/jazz'' world0) = \<lparr>res_status = 200, res_body = Records []\<rparr>"
proof -
  have s: "fst (searchAndSave (store_upsert no_reject) (catalog 503 None) ''jazz'' world0) = Inr []"
    by (simp add: searchAndSave_Inl fetch_results_503)
  from search_route_answers [OF unescaped_nonempty, of throwing world0 "''/search/jazz''"
      "''jazz''" "''jazz''" "[]" TypeError "store_upsert no_reject" "catalog 503 None" world0]
  show ?thesis
    by (simp add: match_route_jazz unescaped_jazz throwing_Inl s)
qed

section \<open>Calling twice\<close>

lemma natural_not_nullish: "has_natural_id item \<Longrightarrow> item \<noteq> JUndefined \<and> item \<noteq> JNull"
  by (cases item) (simp_all add: has_natural_id_def read_prop_def)

lemma build_store: "store (snd (build_searchResult e item w)) = store w"
proof (cases "item = JUndefined \<or> item = JNull")
  case True
  then show ?thesis by (simp add: build_searchResult_Inl)
next
  case False
  then show ?thesis by (simp add: build_searchResult_Inr)
qed

lemma build_reads: "reads w \<le> reads (snd (build_searchResult e item w))"
proof (cases "item = JUndefined \<or> item = JNull")
  case True
  then show ?thesis by (simp add: build_searchResult_Inl)
next
  case False
  then show ?thesis by (simp add: build_searchResult_Inr)
qed

lemma save_item_reads: "reads w \<le> reads (snd (save_item U e item w))"
proof -
  obtain b w1 where b: "build_searchResult e item w = (b, w1)"
    by (cases "build_searchResult e item w")
  then have "reads w \<le> reads w1"
    using build_reads [where w = w and e = e and item = item] by simp
  then show ?thesis
    using b by (auto simp: save_item_def split: prod.splits sum.splits)
qed

lemma save_loop_reads: "reads w \<le> reads (snd (save_loop U e items acc w))"
proof (induction items arbitrary: acc w)
  case Nil
  show ?case by simp
next
  case (Cons item items)
  obtain res w1 where s: "save_item U e item w = (res, w1)"
    by (cases "save_item U e item w")
  then have "reads w \<le> reads w1"
    using save_item_reads [where w = w and U = U and e = e and item = item] by simp
  moreover have "reads w1 \<le> reads (snd (save_loop U e items acc' w1))" for acc'
    by (rule Cons.IH)
  moreover have "reads w1 \<le>
      reads (snd (save_loop U e items acc' (console_error m err w1)))" for acc' m err
    using Cons.IH [where acc = acc' and w = "console_error m err w1"]
    by (simp add: console_error_def)
  ultimately show ?case
    using s by (cases res) (auto intro: order_trans)
qed

lemma searchAndSave_reads: "reads w \<le> reads (snd (searchAndSave U e searchWord w))"
proof (cases "fetch_results e searchWord")
  case (Inl err)
  then show ?thesis by (simp add: searchAndSave_Inl console_error_def)
next
  case (Inr items)
  then show ?thesis
    using save_loop_reads [where w = w and U = U and e = e and items = items and acc = "[]"]
    by (auto simp: searchAndSave_def searchAndSave_try_def split: prod.splits)
qed

lemma clock_catalog: "clock (catalog st body) = ticking"
  by (simp add: catalog_def)

lemma ticking_mono: "mono ticking"
  by (simp add: mono_def ticking_def)

lemma podcast_natural: "n \<noteq> 0 \<Longrightarrow> has_natural_id (podcast n a)"
  by (simp add: has_natural_id_def podcast_def read_prop_def)

lemma anonymous_first:
  "searchAndSave (store_upsert no_reject) (catalog 200 (with_results (JArr [anonymous]))) ''jazz'' world0
   = (Inr [\<lparr>id_field = JNum 1000, kind = JStr ''podcast'', artistName = JStr ''A'',
            collectionName = JStr [], collectionViewUrl = JStr [],
            image_field = JUndefined, searchDate = JDate 1001\<rparr>],
      \<lparr>reads = 2,
       store = [\<lparr>id_field = JNum 1000, kind = JStr ''podcast'', artistName = JStr ''A'',
            collectionName = JStr [], collectionViewUrl = JStr [],
            image_field = JUndefined, searchDate = JDate 1001\<rparr>],
       console = []\<rparr>)"
  by (simp add: searchAndSave_def searchAndSave_try_def fetch_example save_item_def
      build_searchResult_def read_prop_def Date_now_def js_or_def clock_catalog ticking_def
      world0_def store_upsert_def no_reject_def anonymous_def)

text \<open>C8, as stated, fails. An item with neither \<open>trackId\<close> nor \<open>collectionId\<close>
  gets the clock's reading as its \<open>id\<close>, so the same catalog answer gives the record
  one \<open>id\<close> in the first call and another in the second.\<close>

theorem synthetic_id_counterexample:
  "fetch_results (catalog 200 (with_results (JArr [anonymous]))) ''jazz'' = Inr [anonymous]
   \<and> map_sum id (map id_field)
        (fst (searchAndSave (store_upsert no_reject) (catalog 200 (with_results (JArr [anonymous])))
           ''jazz'' world0)) = Inr [JNum 1000]
   \<and> map_sum id (map id_field)
        (fst (searchAndSave (store_upsert no_reject) (catalog 200 (with_results (JArr [anonymous])))
           ''jazz''
           (snd (searchAndSave (store_upsert no_reject)
                   (catalog 200 (with_results (JArr [anonymous]))) ''jazz'' world0))))
       = Inr [JNum 1002]
   \<and> JNum 1000 \<noteq> JNum 1002"
  unfolding anonymous_first
  by (simp add: searchAndSave_def searchAndSave_try_def fetch_example save_item_def
      build_searchResult_def read_prop_def Date_now_def js_or_def clock_catalog ticking_def
      store_upsert_def no_reject_def anonymous_def)

section \<open>The image and the default of the schema\<close>

text \<open>C6, as amended. The record's \<open>image\<close> is the item's \<open>artworkUrl600\<close> when that
  is truthy, and the item's \<open>artworkUrl100\<close> as it is otherwise. With the schema's
  default, which a document inserted for the record gets, the image is the
  \<open>artworkUrl600\<close> when that is truthy, else the \<open>artworkUrl100\<close> when the item has
  one, else the empty string: when both are absent the record has no image and the
  inserted document has the empty string.\<close>

theorem image_fallback_default:
  assumes "item \<noteq> JUndefined" and "item \<noteq> JNull"
  shows "\<exists>r. fst (build_searchResult e item w) = Inr r
    \<and> image_field r =
        (if truthy (read_prop item ''artworkUrl600'') then read_prop item ''artworkUrl600''
         else read_prop item ''artworkUrl100'')
    \<and> image_field (schema_defaults r) =
        (if truthy (read_prop item ''artworkUrl600'') then read_prop item ''artworkUrl600''
         else if present item ''artworkUrl100'' then read_prop item ''artworkUrl100''
         else JStr [])
    \<and> (\<not> present item ''artworkUrl600'' \<and> \<not> present item ''artworkUrl100''
          \<longrightarrow> image_field r = JUndefined \<and> image_field (schema_defaults r) = JStr [])"
proof -
  have "truthy v \<Longrightarrow> v \<noteq> JUndefined" for v by auto
  then show ?thesis
    by (auto simp: build_searchResult_Inr [OF assms] js_or_def present_def schema_defaults_def)
qed

theorem image_fallback_default_witness:
  "bare_item \<noteq> JUndefined \<and> bare_item \<noteq> JNull
   \<and> \<not> present bare_item ''artworkUrl600'' \<and> \<not> present bare_item ''artworkUrl100''
   \<and> (\<exists>r. fst (build_searchResult (catalog 200 None) bare_item world0) = Inr r
        \<and> image_field r = JUndefined \<and> image_field (schema_defaults r) = JStr [])
   \<and> podcast 1 ''A'' \<noteq> JUndefined \<and> podcast 1 ''A'' \<noteq> JNull
   \<and> (\<exists>r. fst (build_searchResult (catalog 200 None) (podcast 1 ''A'') world0) = Inr r
        \<and> image_field (schema_defaults r) = JStr ''http://img'')"
  using image_fallback_default [of bare_item "catalog 200 None" world0]
    image_fallback_default [of "podcast 1 ''A''" "catalog 200 None" world0]
  by (auto simp: bare_item_def podcast_def read_prop_def present_def)

lemma empty_artwork_call:
  "fst (searchAndSave (store_upsert no_reject) (catalog 200 (with_results (JArr [empty_artwork])))
     ''jazz'' world0)
   = Inr [\<lparr>id_field = JNum 4, kind = JUndefined, artistName = JUndefined,
            collectionName = JStr [], collectionViewUrl = JStr [],
            image_field = JStr ''http://low'', searchDate = JDate 1000\<rparr>]"
  by (simp add: searchAndSave_def searchAndSave_try_def fetch_example save_item_def
      build_searchResult_def read_prop_def Date_now_def js_or_def clock_catalog ticking_def
      world0_def store_upsert_def no_reject_def empty_artwork_def)

text \<open>C6, as stated, fails. The item below has an \<open>artworkUrl600\<close>, the empty string,
  and an \<open>artworkUrl100\<close>; the document returned for it has the \<open>artworkUrl100\<close> as
  its image, before and after the schema's default.\<close>

theorem image_present_counterexample:
  "present empty_artwork ''artworkUrl600''
   \<and> read_prop empty_artwork ''artworkUrl600'' = JStr []
   \<and> map_sum id (map image_field)
        (fst (searchAndSave (store_upsert no_reject)
           (catalog 200 (with_results (JArr [empty_artwork]))) ''jazz'' world0))
       = Inr [JStr ''http://low'']
   \<and> map_sum id (map (image_field \<circ> schema_defaults))
        (fst (searchAndSave (store_upsert no_reject)
           (catalog 200 (with_results (JArr [empty_artwork]))) ''jazz'' world0))
       = Inr [JStr ''http://low'']"
  unfolding empty_artwork_call
  by (simp add: present_def empty_artwork_def read_prop_def schema_defaults_def)

section \<open>One document for each id\<close>

lemma replace_by_id_ids:
  "id_field ` set (replace_by_id r xs) = insert (id_field r) (id_field ` set xs)"
  by (induction xs) auto

lemma replace_by_id_distinct:
  "distinct (map id_field xs) \<Longrightarrow> distinct (map id_field (replace_by_id r xs))"
proof (induction xs)
  case Nil
  show ?case by simp
next
  case (Cons x xs)
  show ?case
  proof (cases "id_field x = id_field r")
    case True
    with Cons.prems show ?thesis by simp
  next
    case False
    have "id_field x \<notin> id_field ` set (replace_by_id r xs)"
      using Cons.prems False by (simp add: replace_by_id_ids)
    with Cons False show ?thesis by simp
  qed
qed

lemma replace_by_id_filter:
  "distinct (map id_field xs) \<Longrightarrow>
   filter (\<lambda>x. id_field x = id_field r) (replace_by_id r xs) = [r]"
proof (induction xs)
  case Nil
  show ?case by simp
next
  case (Cons x xs)
  show ?case
  proof (cases "id_field x = id_field r")
    case True
    then have "\<forall>y\<in>set xs. id_field y \<noteq> id_field r"
      using Cons.prems by (auto simp: image_iff)
    then have "filter (\<lambda>x. id_field x = id_field r) xs = []"
      by (simp add: filter_empty_conv)
    with True show ?thesis by simp
  next
    case False
    with Cons show ?thesis by simp
  qed
qed

lemma replace_by_id_others:
  "x \<in> set (replace_by_id r xs) \<Longrightarrow> id_field x \<noteq> id_field r \<Longrightarrow> x \<in> set xs"
  by (induction xs) (auto split: if_splits)

lemma replace_by_id_keeps:
  "x \<in> set xs \<Longrightarrow> id_field x \<noteq> id_field r \<Longrightarrow> x \<in> set (replace_by_id r xs)"
  by (induction xs) auto

lemma replace_by_id_length:
  "length (replace_by_id r xs) =
     (if id_field r \<in> id_field ` set xs then length xs else Suc (length xs))"
  by (induction xs) auto

lemma save_item_store:
  assumes "\<And>st r. P st \<Longrightarrow> P (snd (U st r))" and "P (store w)"
  shows "P (store (snd (save_item U e item w)))"
proof -
  obtain b w1 where b: "build_searchResult e item w = (b, w1)"
    by (cases "build_searchResult e item w")
  then have w1: "store w1 = store w"
    using build_store [of e item w] by simp
  show ?thesis
  proof (cases b)
    case (Inl err)
    with b w1 assms(2) show ?thesis by (simp add: save_item_def)
  next
    case (Inr r)
    obtain res st where u: "U (store w1) r = (res, st)"
      by (cases "U (store w1) r")
    then have "P st"
      using assms(1) [of "store w1" r] assms(2) w1 by simp
    then show ?thesis
      using b Inr u by (cases res) (simp_all add: save_item_def)
  qed
qed

lemma save_loop_store:
  assumes "\<And>st r. P st \<Longrightarrow> P (snd (U st r))"
  shows "P (store w) \<Longrightarrow> P (store (snd (save_loop U e items acc w)))"
proof (induction items arbitrary: acc w)
  case Nil
  then show ?case by simp
next
  case (Cons item items)
  obtain res w1 where s: "save_item U e item w = (res, w1)"
    by (cases "save_item U e item w")
  then have p: "P (store w1)"
    using save_item_store [of P U w e item, OF assms Cons.prems] by simp
  show ?case
  proof (cases res)
    case (Inl err)
    have "P (store (console_error ''Error saving individual result:'' err w1))"
      using p by (simp add: console_error_def)
    then have "P (store (snd (save_loop U e items acc
        (console_error ''Error saving individual result:'' err w1))))"
      by (rule Cons.IH)
    with s Inl show ?thesis by simp
  next
    case (Inr saved)
    have "P (store (snd (save_loop U e items (acc @ [saved]) w1)))"
      using p by (rule Cons.IH)
    with s Inr show ?thesis by simp
  qed
qed

lemma searchAndSave_store:
  assumes "\<And>st r. P st \<Longrightarrow> P (snd (U st r))" and "P (store w)"
  shows "P (store (snd (searchAndSave U e searchWord w)))"
proof (cases "fetch_results e searchWord")
  case (Inl err)
  then show ?thesis using assms(2) by (simp add: searchAndSave_Inl console_error_def)
next
  case (Inr items)
  have "P (store (snd (save_loop U e items [] w)))"
    using assms by (rule save_loop_store)
  with Inr show ?thesis
    by (auto simp: searchAndSave_def searchAndSave_try_def split: prod.splits)
qed

lemma run_calls_store:
  assumes "\<And>st r. P st \<Longrightarrow> P (snd (U st r))"
  shows "P (store w) \<Longrightarrow> P (store (run_calls U calls w))"
proof (induction calls arbitrary: w)
  case Nil
  then show ?case by simp
next
  case (Cons c calls)
  obtain e searchWord where c: "c = (e, searchWord)" by (cases c)
  have "P (store (snd (searchAndSave U e searchWord w)))"
    using assms Cons.prems by (rule searchAndSave_store)
  then show ?case unfolding c by (simp add: Cons.IH)
qed

lemma store_upsert_distinct:
  "distinct (map id_field st) \<Longrightarrow> distinct (map id_field (snd (store_upsert rejects st r)))"
  by (simp add: store_upsert_def replace_by_id_distinct split: option.splits)

text \<open>C9. With the record store of section 4.1: if no two documents of the store have
  the same \<open>id\<close>, this is still so after any sequence of calls of
  \<open>searchAndSave\<close>. An accepted upsert returns the record, after it the store has
  exactly one document with the record's \<open>id\<close>, the record itself with all its fields
  (\<open>searchDate\<close> included), the documents with another \<open>id\<close> are the ones that were
  there, and the store has grown by one document if the \<open>id\<close> was new and not at all
  otherwise.\<close>

theorem store_one_record_per_id:
  "(distinct (map id_field (store w)) \<longrightarrow>
      distinct (map id_field (store (run_calls (store_upsert rejects) calls w))))
   \<and> (distinct (map id_field st) \<and> rejects r = None \<longrightarrow>
        fst (store_upsert rejects st r) = Inr r
      \<and> filter (\<lambda>x. id_field x = id_field r) (snd (store_upsert rejects st r)) = [r]
      \<and> (\<forall>x. id_field x \<noteq> id_field r \<longrightarrow>
            (x \<in> set (snd (store_upsert rejects st r)) \<longleftrightarrow> x \<in> set st))
      \<and> length (snd (store_upsert rejects st r)) =
          (if id_field r \<in> id_field ` set st then length st else Suc (length st)))"
proof (intro conjI impI)
  assume "distinct (map id_field (store w))"
  then show "distinct (map id_field (store (run_calls (store_upsert rejects) calls w)))"
    by (rule run_calls_store [where P = "\<lambda>st. distinct (map id_field st)", rotated])
      (rule store_upsert_distinct)
next
  assume a: "distinct (map id_field st) \<and> rejects r = None"
  then have s: "store_upsert rejects st r = (Inr r, replace_by_id r st)"
    by (simp add: store_upsert_def)
  show "fst (store_upsert rejects st r) = Inr r"
    by (simp add: s)
  show "filter (\<lambda>x. id_field x = id_field r) (snd (store_upsert rejects st r)) = [r]"
    using a by (simp add: s replace_by_id_filter)
  show "\<forall>x. id_field x \<noteq> id_field r \<longrightarrow>
            (x \<in> set (snd (store_upsert rejects st r)) \<longleftrightarrow> x \<in> set st)"
    unfolding s snd_conv
    by (intro allI impI iffI) (erule replace_by_id_others replace_by_id_keeps, assumption)+
  show "length (snd (store_upsert rejects st r)) =
          (if id_field r \<in> id_field ` set st then length st else Suc (length st))"
    by (simp only: s snd_conv replace_by_id_length)
qed

lemma first_call:
  "searchAndSave (store_upsert no_reject) (catalog 200 (with_results (JArr [podcast 1 ''A''])))
     ''jazz'' world0
   = (Inr [\<lparr>id_field = JNum 1, kind = JStr ''podcast'', artistName = JStr ''A'',
        collectionName = JStr ''B'', collectionViewUrl = JStr ''http://x'',
        image_field = JStr ''http://img'', searchDate = JDate 1000\<rparr>],
      \<lparr>reads = 1,
       store = [\<lparr>id_field = JNum 1, kind = JStr ''podcast'', artistName = JStr ''A'',
        collectionName = JStr ''B'', collectionViewUrl = JStr ''http://x'',
        image_field = JStr ''http://img'', searchDate = JDate 1000\<rparr>],
       console = []\<rparr>)"
  by (simp add: searchAndSave_def searchAndSave_try_def fetch_example save_item_def
      build_searchResult_def read_prop_def Date_now_def js_or_def clock_catalog ticking_def
      world0_def store_upsert_def no_reject_def podcast_def)

lemma second_call:
  "searchAndSave (store_upsert no_reject) (catalog 200 (with_results (JArr [podcast 1 ''Z''])))
     ''jazz''
     \<lparr>reads = Suc 0,
       store = [\<lparr>id_field = JNum 1, kind = JStr ''podcast'', artistName = JStr ''A'',
        collectionName = JStr ''B'', collectionViewUrl = JStr ''http://x'',
        image_field = JStr ''http://img'', searchDate = JDate 1000\<rparr>],
       console = []\<rparr>
   = (Inr [\<lparr>id_field = JNum 1, kind = JStr ''podcast'', artistName = JStr ''Z'',
        collectionName = JStr ''B'', collectionViewUrl = JStr ''http://x'',
        image_field = JStr ''http://img'', searchDate = JDate 1001\<rparr>],
      \<lparr>reads = 2,
       store = [\<lparr>id_field = JNum 1, kind = JStr ''podcast'', artistName = JStr ''Z'',
        collectionName = JStr ''B'', collectionViewUrl = JStr ''http://x'',
        image_field = JStr ''http://img'', searchDate = JDate 1001\<rparr>],
       console = []\<rparr>)"
  by (simp add: searchAndSave_def searchAndSave_try_def fetch_example save_item_def
      build_searchResult_def read_prop_def Date_now_def js_or_def clock_catalog ticking_def
      store_upsert_def no_reject_def podcast_def)

lemma two_calls_store:
  "store (run_calls (store_upsert no_reject)
     [(catalog 200 (with_results (JArr [podcast 1 ''A''])), ''jazz''),
      (catalog 200 (with_results (JArr [podcast 1 ''Z''])), ''jazz'')] world0)
   = [\<lparr>id_field = JNum 1, kind = JStr ''podcast'', artistName = JStr ''Z'',
        collectionName = JStr ''B'', collectionViewUrl = JStr ''http://x'',
        image_field = JStr ''http://img'', searchDate = JDate 1001\<rparr>]"
  by (simp add: first_call second_call)

theorem store_one_record_per_id_witness:
  "distinct (map id_field (store world0))
   \<and> distinct (map id_field (store (run_calls (store_upsert no_reject)
        [(catalog 200 (with_results (JArr [podcast 1 ''A''])), ''jazz''),
         (catalog 200 (with_results (JArr [podcast 1 ''Z''])), ''jazz'')] world0)))
   \<and> store (run_calls (store_upsert no_reject)
        [(catalog 200 (with_results (JArr [podcast 1 ''A''])), ''jazz''),
         (catalog 200 (with_results (JArr [podcast 1 ''Z''])), ''jazz'')] world0)
      = [\<lparr>id_field = JNum 1, kind = JStr ''podcast'', artistName = JStr ''Z'',
           collectionName = JStr ''B'', collectionViewUrl = JStr ''http://x'',
           image_field = JStr ''http://img'', searchDate = JDate 1001\<rparr>]"
proof -
  have d: "distinct (map id_field (store world0))"
    by (simp add: world0_def)
  from store_one_record_per_id [of world0 no_reject
      "[(catalog 200 (with_results (JArr [podcast 1 ''A''])), ''jazz''),
        (catalog 200 (with_results (JArr [podcast 1 ''Z''])), ''jazz'')]"] d
  have "distinct (map id_field (store (run_calls (store_upsert no_reject)
        [(catalog 200 (with_results (JArr [podcast 1 ''A''])), ''jazz''),
         (catalog 200 (with_results (JArr [podcast 1 ''Z''])), ''jazz'')] world0)))"
    by blast
  with d two_calls_store show ?thesis by (intro conjI)
qed

section \<open>Calling twice: the store\<close>

lemma build_natural:
  assumes "has_natural_id item"
  shows "\<exists>r. build_searchResult e item w = (Inr r, w\<lparr>reads := Suc (reads w)\<rparr>)
    \<and> id_field r = js_or (read_prop item ''trackId'') (read_prop item ''collectionId'')
    \<and> kind r = read_prop item ''kind''
    \<and> artistName r = read_prop item ''artistName''
    \<and> collectionName r =
        js_or (read_prop item ''collectionName'') (js_or (read_prop item ''trackName'') (JStr []))
    \<and> collectionViewUrl r =
        js_or (read_prop item ''collectionViewUrl'')
          (js_or (read_prop item ''trackViewUrl'') (JStr []))
    \<and> image_field r = js_or (read_prop item ''artworkUrl600'') (read_prop item ''artworkUrl100'')
    \<and> searchDate r = JDate (clock e (reads w))"
proof -
  from assms have n: "item \<noteq> JUndefined" "item \<noteq> JNull"
    using natural_not_nullish by blast+
  from assms show ?thesis
    unfolding build_searchResult_Inr [OF n]
    by (auto simp: has_natural_id_def js_or_def)
qed

lemma natural_same_later:
  assumes "has_natural_id item" and "mono (clock e)" and "reads w \<le> reads w'"
    and "build_searchResult e item w = (Inr r, w1)"
    and "build_searchResult e item w' = (Inr r', w1')"
  shows "same_later r r'"
proof -
  have "clock e (reads w) \<le> clock e (reads w')"
    using assms(2,3) by (simp add: monoD)
  then show ?thesis
    using build_natural [OF assms(1), of e w] build_natural [OF assms(1), of e w'] assms(4,5)
    by (auto simp: same_later_def same_entity_def)
qed

lemma two_traces:
  assumes "\<And>st r s. fst (U st r) = Inr s \<Longrightarrow> s = r" and "mono (clock e)"
  shows "\<forall>item\<in>set items. has_natural_id item \<Longrightarrow> reads w \<le> reads w' \<Longrightarrow>
     list_all2 calls_agree (upsert_trace U e items w) (upsert_trace U e items w')"
proof (induction items arbitrary: w w')
  case Nil
  show ?case by simp
next
  case (Cons item items)
  from Cons.prems have nat: "has_natural_id item"
    and rest: "\<forall>item\<in>set items. has_natural_id item" by simp_all
  obtain r where b: "build_searchResult e item w = (Inr r, w\<lparr>reads := Suc (reads w)\<rparr>)"
    using build_natural [OF nat] by blast
  obtain r' where b': "build_searchResult e item w' = (Inr r', w'\<lparr>reads := Suc (reads w')\<rparr>)"
    using build_natural [OF nat] by blast
  have sl: "same_later r r'"
    using nat assms(2) Cons.prems(2) b b' by (rule natural_same_later)
  obtain res st where u: "U (store w) r = (res, st)"
    by (cases "U (store w) r")
  obtain res' st' where u': "U (store w') r' = (res', st')"
    by (cases "U (store w') r'")
  have res: "res = Inr s \<Longrightarrow> s = r" for s
    using assms(1) [of "store w" r s] u by simp
  have res': "res' = Inr s \<Longrightarrow> s = r'" for s
    using assms(1) [of "store w'" r' s] u' by simp
  have head: "calls_agree (item, res) (item, res')"
    using sl res res' by (cases res; cases res') auto
  have IH: "list_all2 calls_agree (upsert_trace U e items v) (upsert_trace U e items v')"
    if "reads v = Suc (reads w)" and "reads v' = Suc (reads w')" for v v'
    using rest Cons.prems(2) that by (intro Cons.IH) simp_all
  show ?case
    using b b' u u' head
    by (cases res; cases res') (simp_all add: IH console_error_def)
qed

lemma store_upsert_Some: "rejects r = Some err \<Longrightarrow> store_upsert rejects st r = (Inl err, st)"
  by (simp add: store_upsert_def)

lemma store_upsert_None:
  "rejects r = None \<Longrightarrow> store_upsert rejects st r = (Inr r, replace_by_id r st)"
  by (simp add: store_upsert_def)

lemma store_upsert_returns: "fst (store_upsert rejects st r) = Inr s \<Longrightarrow> s = r"
  by (auto simp: store_upsert_def split: option.splits)

lemma searchAndSave_world:
  "fetch_results e searchWord = Inr items \<Longrightarrow>
   snd (searchAndSave U e searchWord w) = snd (save_loop U e items [] w)"
  by (auto simp: searchAndSave_def searchAndSave_try_def split: prod.splits)

lemma replace_by_id_same:
  assumes "distinct (map id_field xs)" and "x \<in> set (replace_by_id r xs)"
    and "id_field x = id_field r"
  shows "x = r"
proof -
  from assms(2,3) have "x \<in> set (filter (\<lambda>y. id_field y = id_field r) (replace_by_id r xs))"
    by simp
  then show ?thesis
    by (simp add: replace_by_id_filter [OF assms(1)])
qed

lemma loop_store_written:
  "distinct (map id_field (store w)) \<Longrightarrow>
   x \<in> set (store (snd (save_loop (store_upsert rejects) e items acc w))) \<Longrightarrow>
   x \<in> set (saved_of (upsert_trace (store_upsert rejects) e items w))
   \<or> (x \<in> set (store w)
       \<and> id_field x \<notin> id_field ` set (saved_of (upsert_trace (store_upsert rejects) e items w)))"
proof (induction items arbitrary: acc w)
  case Nil
  then show ?case by simp
next
  case (Cons item items)
  let ?U = "store_upsert rejects"
  obtain b w1 where b: "build_searchResult e item w = (b, w1)"
    by (cases "build_searchResult e item w")
  then have st: "store w1 = store w"
    using build_store [of e item w] by simp
  show ?case
  proof (cases b)
    case (Inl err)
    let ?v = "console_error ''Error saving individual result:'' err w1"
    have "distinct (map id_field (store ?v))"
      using Cons.prems(1) st by (simp add: console_error_def)
    moreover have "x \<in> set (store (snd (save_loop ?U e items acc ?v)))"
      using Cons.prems(2) b Inl by (simp add: save_item_def)
    ultimately have "x \<in> set (saved_of (upsert_trace ?U e items ?v))
      \<or> (x \<in> set (store ?v) \<and> id_field x \<notin> id_field ` set (saved_of (upsert_trace ?U e items ?v)))"
      by (rule Cons.IH)
    then show ?thesis
      using b Inl st by (simp add: console_error_def)
  next
    case (Inr r)
    show ?thesis
    proof (cases "rejects r")
      case (Some err)
      let ?v = "console_error ''Error saving individual result:'' (StoreError err) w1"
      have "distinct (map id_field (store ?v))"
        using Cons.prems(1) st by (simp add: console_error_def)
      moreover have "x \<in> set (store (snd (save_loop ?U e items acc ?v)))"
        using Cons.prems(2) b Inr Some by (simp add: save_item_def store_upsert_Some)
      ultimately have "x \<in> set (saved_of (upsert_trace ?U e items ?v))
        \<or> (x \<in> set (store ?v) \<and> id_field x \<notin> id_field ` set (saved_of (upsert_trace ?U e items ?v)))"
        by (rule Cons.IH)
      then show ?thesis
        using b Inr Some st by (simp add: console_error_def store_upsert_Some)
    next
      case None
      let ?v = "w1\<lparr>store := replace_by_id r (store w1)\<rparr>"
      have d: "distinct (map id_field (store ?v))"
        using Cons.prems(1) st by (simp add: replace_by_id_distinct)
      have "x \<in> set (store (snd (save_loop ?U e items (acc @ [r]) ?v)))"
        using Cons.prems(2) b Inr None by (simp add: save_item_def store_upsert_None)
      with d have "x \<in> set (saved_of (upsert_trace ?U e items ?v))
        \<or> (x \<in> set (store ?v) \<and> id_field x \<notin> id_field ` set (saved_of (upsert_trace ?U e items ?v)))"
        by (rule Cons.IH)
      moreover have t: "saved_of (upsert_trace ?U e (item # items) w) =
          r # saved_of (upsert_trace ?U e items ?v)"
        using b Inr None by (simp add: store_upsert_None)
      moreover have "x = r \<or> (x \<in> set (store w) \<and> id_field x \<noteq> id_field r)"
        if "x \<in> set (store ?v)"
      proof (cases "id_field x = id_field r")
        case True
        then show ?thesis
          using that Cons.prems(1) st replace_by_id_same [of "store w" x r] by simp
      next
        case False
        then show ?thesis
          using that st replace_by_id_others [of x r "store w"] by simp
      qed
      ultimately show ?thesis
        unfolding t by auto
    qed
  qed
qed

lemma loop_store_ids:
  "id_field ` set (store (snd (save_loop (store_upsert rejects) e items acc w))) =
   id_field ` set (store w)
     \<union> id_field ` set (saved_of (upsert_trace (store_upsert rejects) e items w))"
proof (induction items arbitrary: acc w)
  case Nil
  show ?case by simp
next
  case (Cons item items)
  let ?U = "store_upsert rejects"
  obtain b w1 where b: "build_searchResult e item w = (b, w1)"
    by (cases "build_searchResult e item w")
  then have st: "store w1 = store w"
    using build_store [of e item w] by simp
  show ?case
  proof (cases b)
    case (Inl err)
    show ?thesis
      using b Inl st
      by (simp add: save_item_def Cons.IH console_error_def)
  next
    case (Inr r)
    show ?thesis
    proof (cases "rejects r")
      case (Some err)
      show ?thesis
        using b Inr Some st
        by (simp add: save_item_def store_upsert_Some Cons.IH console_error_def)
    next
      case None
      show ?thesis
        using b Inr None st
        by (simp add: save_item_def store_upsert_None Cons.IH replace_by_id_ids)
    qed
  qed
qed

lemma distinct_unique:
  "distinct (map f xs) \<Longrightarrow> x \<in> set xs \<Longrightarrow> filter (\<lambda>y. f y = f x) xs = [x]"
proof (induction xs)
  case Nil
  then show ?case by simp
next
  case (Cons a xs)
  show ?case
  proof (cases "x = a")
    case True
    have "\<forall>y\<in>set xs. f y \<noteq> f a"
      using Cons.prems(1) by (auto simp: image_iff)
    then have "filter (\<lambda>y. f y = f a) xs = []"
      by (simp add: filter_empty_conv)
    with True show ?thesis by simp
  next
    case False
    with Cons.prems have x: "x \<in> set xs" by simp
    then have "f a \<noteq> f x"
      using Cons.prems(1) by (auto simp: image_iff)
    with Cons x show ?thesis by simp
  qed
qed

text \<open>C8, as amended. Take an unchanged catalog answer whose items all have a truthy
  \<open>trackId\<close> or \<open>collectionId\<close>, a clock that does not run backwards, and the record
  store of section 4.1 holding at most one document for each \<open>id\<close>, whatever writes it
  rejects. Each of two calls in a row returns the documents of its successful store
  calls. The two calls make their store calls for the same items in the same order, and
  where both succeeded for an item the two documents have the same \<open>id\<close>, \<open>kind\<close>,
  \<open>artistName\<close>, \<open>collectionName\<close>, \<open>collectionViewUrl\<close> and \<open>image\<close>, the second
  \<open>searchDate\<close> being no earlier than the first. The second call overwrites and does not
  duplicate: after it the store still has at most one document for each \<open>id\<close>, its ids
  are those it had after the first call and those of the records the second call
  returned, and for each of these records it holds exactly one document with the
  record's \<open>id\<close>, a record written by the second call.\<close>

theorem repeated_call_overwrites:
  assumes "fetch_results e searchWord = Inr items"
    and "\<forall>item\<in>set items. has_natural_id item"
    and "mono (clock e)"
    and "distinct (map id_field (store w))"
  shows
   "fst (searchAndSave (store_upsert rejects) e searchWord w) =
      Inr (saved_of (upsert_trace (store_upsert rejects) e items w))
    \<and> fst (searchAndSave (store_upsert rejects) e searchWord
             (snd (searchAndSave (store_upsert rejects) e searchWord w))) =
      Inr (saved_of (upsert_trace (store_upsert rejects) e items
             (snd (searchAndSave (store_upsert rejects) e searchWord w))))
    \<and> list_all2 calls_agree
        (upsert_trace (store_upsert rejects) e items w)
        (upsert_trace (store_upsert rejects) e items
           (snd (searchAndSave (store_upsert rejects) e searchWord w)))
    \<and> distinct (map id_field (store (snd (searchAndSave (store_upsert rejects) e searchWord
             (snd (searchAndSave (store_upsert rejects) e searchWord w))))))
    \<and> id_field ` set (store (snd (searchAndSave (store_upsert rejects) e searchWord
             (snd (searchAndSave (store_upsert rejects) e searchWord w))))) =
        id_field ` set (store (snd (searchAndSave (store_upsert rejects) e searchWord w)))
          \<union> id_field ` set (saved_of (upsert_trace (store_upsert rejects) e items
             (snd (searchAndSave (store_upsert rejects) e searchWord w))))
    \<and> (\<forall>b\<in>set (saved_of (upsert_trace (store_upsert rejects) e items
             (snd (searchAndSave (store_upsert rejects) e searchWord w)))).
          \<exists>x\<in>set (saved_of (upsert_trace (store_upsert rejects) e items
             (snd (searchAndSave (store_upsert rejects) e searchWord w)))).
            filter (\<lambda>y. id_field y = id_field b)
              (store (snd (searchAndSave (store_upsert rejects) e searchWord
                 (snd (searchAndSave (store_upsert rejects) e searchWord w))))) = [x])"
proof -
  let ?U = "store_upsert rejects"
  let ?w1 = "snd (searchAndSave ?U e searchWord w)"
  let ?w2 = "snd (searchAndSave ?U e searchWord ?w1)"
  let ?T2 = "upsert_trace ?U e items ?w1"
  have r1: "fst (searchAndSave ?U e searchWord w) = Inr (saved_of (upsert_trace ?U e items w))"
    using assms(1) by (rule searchAndSave_Inr)
  have r2: "fst (searchAndSave ?U e searchWord ?w1) = Inr (saved_of ?T2)"
    using assms(1) by (rule searchAndSave_Inr)
  have "reads w \<le> reads ?w1"
    by (rule searchAndSave_reads)
  then have ag: "list_all2 calls_agree (upsert_trace ?U e items w) ?T2"
    using two_traces [of ?U e items w ?w1] store_upsert_returns assms(2,3) by blast
  have d1: "distinct (map id_field (store ?w1))"
    using store_upsert_distinct assms(4)
    by (rule searchAndSave_store [where P = "\<lambda>st. distinct (map id_field st)"])
  have d2: "distinct (map id_field (store ?w2))"
    using store_upsert_distinct d1
    by (rule searchAndSave_store [where P = "\<lambda>st. distinct (map id_field st)"])
  have w2: "?w2 = snd (save_loop ?U e items [] ?w1)"
    using assms(1) by (rule searchAndSave_world)
  have one: "\<exists>x\<in>set (saved_of ?T2). filter (\<lambda>y. id_field y = id_field b) (store ?w2) = [x]"
    if b: "b \<in> set (saved_of ?T2)" for b
  proof -
    have "id_field b \<in> id_field ` set (store ?w2)"
      unfolding w2 loop_store_ids using b by simp
    then obtain x where x: "x \<in> set (store ?w2)" and xb: "id_field x = id_field b"
      by auto
    have "x \<in> set (saved_of ?T2)"
      using loop_store_written [OF d1, of x rejects e items "[]"] x xb b
      unfolding w2 by auto
    moreover have "filter (\<lambda>y. id_field y = id_field b) (store ?w2) = [x]"
      using distinct_unique [OF d2 x] xb by simp
    ultimately show ?thesis by blast
  qed
  have ids: "id_field ` set (store ?w2) =
      id_field ` set (store ?w1) \<union> id_field ` set (saved_of ?T2)"
    unfolding w2 by (rule loop_store_ids)
  from one have each: "\<forall>b\<in>set (saved_of ?T2).
      \<exists>x\<in>set (saved_of ?T2). filter (\<lambda>y. id_field y = id_field b) (store ?w2) = [x]"
    by blast
  show ?thesis
    by (intro conjI) (rule r1 r2 ag d2 ids each)+
qed

lemma second_call_again:
  "searchAndSave (store_upsert no_reject) (catalog 200 (with_results (JArr [podcast 1 ''A''])))
     ''jazz''
     \<lparr>reads = Suc 0,
       store = [\<lparr>id_field = JNum 1, kind = JStr ''podcast'', artistName = JStr ''A'',
        collectionName = JStr ''B'', collectionViewUrl = JStr ''http://x'',
        image_field = JStr ''http://img'', searchDate = JDate 1000\<rparr>],
       console = []\<rparr>
   = (Inr [\<lparr>id_field = JNum 1, kind = JStr ''podcast'', artistName = JStr ''A'',
        collectionName = JStr ''B'', collectionViewUrl = JStr ''http://x'',
        image_field = JStr ''http://img'', searchDate = JDate 1001\<rparr>],
      \<lparr>reads = 2,
       store = [\<lparr>id_field = JNum 1, kind = JStr ''podcast'', artistName = JStr ''A'',
        collectionName = JStr ''B'', collectionViewUrl = JStr ''http://x'',
        image_field = JStr ''http://img'', searchDate = JDate 1001\<rparr>],
       console = []\<rparr>)"
  by (simp add: searchAndSave_def searchAndSave_try_def fetch_example save_item_def
      build_searchResult_def read_prop_def Date_now_def js_or_def clock_catalog ticking_def
      store_upsert_def no_reject_def podcast_def)

theorem repeated_call_overwrites_witness:
  "fetch_results (catalog 200 (with_results (JArr [podcast 1 ''A'']))) ''jazz'' = Inr [podcast 1 ''A'']
   \<and> has_natural_id (podcast 1 ''A'')
   \<and> mono (clock (catalog 200 (with_results (JArr [podcast 1 ''A'']))))
   \<and> distinct (map id_field (store world0))
   \<and> list_all2 calls_agree
        (upsert_trace (store_upsert no_reject) (catalog 200 (with_results (JArr [podcast 1 ''A''])))
           [podcast 1 ''A''] world0)
        (upsert_trace (store_upsert no_reject) (catalog 200 (with_results (JArr [podcast 1 ''A''])))
           [podcast 1 ''A'']
           (snd (searchAndSave (store_upsert no_reject)
                   (catalog 200 (with_results (JArr [podcast 1 ''A'']))) ''jazz'' world0)))
   \<and> fst (searchAndSave (store_upsert no_reject) (catalog 200 (with_results (JArr [podcast 1 ''A''])))
          ''jazz'' world0)
       = Inr [\<lparr>id_field = JNum 1, kind = JStr ''podcast'', artistName = JStr ''A'',
          collectionName = JStr ''B'', collectionViewUrl = JStr ''http://x'',
          image_field = JStr ''http://img'', searchDate = JDate 1000\<rparr>]
   \<and> searchAndSave (store_upsert no_reject) (catalog 200 (with_results (JArr [podcast 1 ''A''])))
          ''jazz''
          (snd (searchAndSave (store_upsert no_reject)
                  (catalog 200 (with_results (JArr [podcast 1 ''A'']))) ''jazz'' world0))
       = (Inr [\<lparr>id_field = JNum 1, kind = JStr ''podcast'', artistName = JStr ''A'',
            collectionName = JStr ''B'', collectionViewUrl = JStr ''http://x'',
            image_field = JStr ''http://img'', searchDate = JDate 1001\<rparr>],
          \<lparr>reads = 2,
           store = [\<lparr>id_field = JNum 1, kind = JStr ''podcast'', artistName = JStr ''A'',
            collectionName = JStr ''B'', collectionViewUrl = JStr ''http://x'',
            image_field = JStr ''http://img'', searchDate = JDate 1001\<rparr>],
           console = []\<rparr>)"
proof -
  let ?e = "catalog 200 (with_results (JArr [podcast 1 ''A'']))"
  have f: "fetch_results ?e ''jazz'' = Inr [podcast 1 ''A'']"
    by (rule fetch_example)
  have n1: "has_natural_id (podcast 1 ''A'')"
    by (simp add: podcast_natural)
  then have n: "\<forall>item\<in>set [podcast 1 ''A'']. has_natural_id item"
    by simp
  have m: "mono (clock ?e)"
    by (simp add: clock_catalog ticking_mono)
  have d: "distinct (map id_field (store world0))"
    by (simp add: world0_def)
  note t = repeated_call_overwrites [OF f n m d, of no_reject]
  note agree = t [THEN conjunct2, THEN conjunct2, THEN conjunct1]
  have c1: "fst (searchAndSave (store_upsert no_reject) ?e ''jazz'' world0)
       = Inr [\<lparr>id_field = JNum 1, kind = JStr ''podcast'', artistName = JStr ''A'',
          collectionName = JStr ''B'', collectionViewUrl = JStr ''http://x'',
          image_field = JStr ''http://img'', searchDate = JDate 1000\<rparr>]"
    by (simp add: first_call)
  have c2: "searchAndSave (store_upsert no_reject) ?e ''jazz''
          (snd (searchAndSave (store_upsert no_reject) ?e ''jazz'' world0))
       = (Inr [\<lparr>id_field = JNum 1, kind = JStr ''podcast'', artistName = JStr ''A'',
            collectionName = JStr ''B'', collectionViewUrl = JStr ''http://x'',
            image_field = JStr ''http://img'', searchDate = JDate 1001\<rparr>],
          \<lparr>reads = 2,
           store = [\<lparr>id_field = JNum 1, kind = JStr ''podcast'', artistName = JStr ''A'',
            collectionName = JStr ''B'', collectionViewUrl = JStr ''http://x'',
            image_field = JStr ''http://img'', searchDate = JDate 1001\<rparr>],
           console = []\<rparr>)"
    by (simp add: first_call second_call_again)
  show ?thesis
    by (intro conjI) (rule f n1 m d agree c1 c2)+
qed

end
